theory Spec2Isabelle
  imports Complex_Main
begin

section \<open>Document trees\<close>

text \<open>
  The code handles a KML document as a tree of \<^verbatim>\<open>bs4\<close> objects: \<^verbatim>\<open>Tag\<close>s (with a
  namespace prefix, a name, attributes and an ordered list \<^verbatim>\<open>contents\<close>) and
  \<^verbatim>\<open>NavigableString\<close>s, of which \<^verbatim>\<open>CData\<close> and the other preformatted strings
  (comments and the like) are subclasses. The \<^verbatim>\<open>BeautifulSoup\<close> object is itself a
  \<^verbatim>\<open>Tag\<close>, the root. Strings are lists of characters, one \<open>char\<close> per code point
  below 256.
\<close>

datatype py_error =
  NameError | ValueError | AttributeError | KeyError | IndexError | TypeError
  | ZeroDivisionError

datatype strkind = Plain | CData | Preformatted

datatype node =
  Str strkind string
  | Tag (tag_prefix: "string option") (tag_name: string)
        (tag_attrs: "(string \<times> string) list") (tag_contents: "node list")

fun is_tag :: "node \<Rightarrow> bool" where
  "is_tag (Tag _ _ _ _) = True"
| "is_tag (Str _ _) = False"

fun node_name :: "node \<Rightarrow> string" where
  "node_name (Tag _ nm _ _) = nm"
| "node_name (Str _ _) = []"

fun node_contents :: "node \<Rightarrow> node list" where
  "node_contents (Tag _ _ _ cs) = cs"
| "node_contents (Str _ _) = []"

text \<open>\<^verbatim>\<open>tag.descendants\<close>: every node below the tag, in document order.\<close>

fun descendants :: "node \<Rightarrow> node list" where
  "descendants (Str _ _) = []"
| "descendants (Tag _ _ _ cs) = concat (map (\<lambda>c. c # descendants c) cs)"

text \<open>\<^verbatim>\<open>tag.find(pred)\<close>: the first descendant tag that satisfies the predicate.\<close>

definition find_tag :: "(node \<Rightarrow> bool) \<Rightarrow> node \<Rightarrow> node option" where
  "find_tag P n = List.find (\<lambda>d. is_tag d \<and> P d) (descendants n)"

text \<open>\<^verbatim>\<open>tag.find_all(pred)\<close>, also written \<^verbatim>\<open>tag(pred)\<close>.\<close>

definition find_all :: "(node \<Rightarrow> bool) \<Rightarrow> node \<Rightarrow> node list" where
  "find_all P n = filter (\<lambda>d. is_tag d \<and> P d) (descendants n)"

text \<open>
  The \<^verbatim>\<open>.string\<close> property: the only child when it is a string, the \<^verbatim>\<open>.string\<close> of
  the only child when that is a tag, and \<^verbatim>\<open>None\<close> for any other number of children.
\<close>

fun string_of :: "node \<Rightarrow> string option" where
  "string_of (Str _ s) = Some s"
| "string_of (Tag _ _ _ [c]) = string_of c"
| "string_of (Tag _ _ _ _) = None"

subsection \<open>Python's whitespace\<close>

definition py_space :: "char \<Rightarrow> bool" where
  "py_space c \<longleftrightarrow> c \<in> set [CHR 0x09, CHR 0x0A, CHR 0x0B, CHR 0x0C, CHR 0x0D,
     CHR 0x1C, CHR 0x1D, CHR 0x1E, CHR 0x1F, CHR 0x20, CHR 0x85, CHR 0xA0]"

definition py_isspace :: "string \<Rightarrow> bool" where
  "py_isspace s \<longleftrightarrow> s \<noteq> [] \<and> list_all py_space s"

definition py_strip :: "string \<Rightarrow> string" where
  "py_strip s = rev (dropWhile py_space (rev (dropWhile py_space s)))"

subsection \<open>Addressing a node of the tree\<close>

text \<open>
  The code holds references to tags and mutates them in place. Here a reference is the
  path of child positions from the root, and a mutation returns the new tree.
\<close>

fun get_at :: "node \<Rightarrow> nat list \<Rightarrow> node option" where
  "get_at n [] = Some n"
| "get_at (Str _ _) (i # p) = None"
| "get_at (Tag _ _ _ cs) (i # p) = (if i < length cs then get_at (cs ! i) p else None)"

fun update_at :: "node \<Rightarrow> nat list \<Rightarrow> (node \<Rightarrow> node) \<Rightarrow> node" where
  "update_at n [] f = f n"
| "update_at (Str k s) (i # p) f = Str k s"
| "update_at (Tag pf nm ats cs) (i # p) f =
     (if i < length cs then Tag pf nm ats (cs[i := update_at (cs ! i) p f])
      else Tag pf nm ats cs)"

section \<open>Document tree accessors\<close>

subsection \<open>\<^verbatim>\<open>add\<close>\<close>

text \<open>
  \<^verbatim>\<open>add(tag, name, soup=None)\<close>. The \<^verbatim>\<open>name\<close> argument is a string or a list, and
  an item of the list goes through \<^verbatim>\<open>add\<close> again, so it may be a list in turn. The
  \<^verbatim>\<open>soup\<close> argument only selects the object whose \<^verbatim>\<open>new_tag\<close> builds the element; it
  has no effect on the tree. The result is the tree together with the reference the
  call returns; \<open>None\<close> stands for an anchor reference that denotes no tag.
\<close>

datatype name_arg = Name string | Names "name_arg list"

definition new_tag :: "string \<Rightarrow> node" where
  "new_tag nm = Tag None nm [] []"

definition append_child :: "node \<Rightarrow> node \<Rightarrow> node" where
  "append_child new n = (case n of Tag pf nm ats cs \<Rightarrow> Tag pf nm ats (cs @ [new]) | s \<Rightarrow> s)"

fun add :: "node \<Rightarrow> nat list \<Rightarrow> name_arg \<Rightarrow> (node \<times> nat list) option"
  and add_each :: "node \<Rightarrow> nat list \<Rightarrow> name_arg list \<Rightarrow> (node \<times> nat list) option"
where
  "add doc tag (Names ns) = add_each doc tag ns"
| "add doc tag (Name nm) =
     (case get_at doc tag of
        Some (Tag _ _ _ cs) \<Rightarrow>
          Some (update_at doc tag (append_child (new_tag nm)), tag @ [length cs])
      | _ \<Rightarrow> None)"
| "add_each doc pointer [] = Some (doc, pointer)"
| "add_each doc pointer (n # ns) =
     (case add doc pointer n of
        None \<Rightarrow> None
      | Some (doc', pointer') \<Rightarrow> add_each doc' pointer' ns)"

subsection \<open>\<^verbatim>\<open>get_data\<close>\<close>

text \<open>
  \<^verbatim>\<open>get_data(pm, name)\<close>. Its first test reads
  \<^verbatim>\<open>not isinstance(name, str) and hasattr(name, __iter__)\<close>: for a string the
  conjunction stops at its first half; for anything else Python evaluates the
  second half, where \<^verbatim>\<open>__iter__\<close> is a bare name bound nowhere in the module or the
  builtins, so the call raises \<^verbatim>\<open>NameError\<close> before the list comprehension is reached.
\<close>

datatype data_result = Datum string | Data "data_result list"

definition attr_lookup :: "string \<Rightarrow> node \<Rightarrow> string option" where
  "attr_lookup k n = (case n of Tag _ _ ats _ \<Rightarrow> map_of ats k | _ \<Rightarrow> None)"

definition is_data_named :: "string \<Rightarrow> node \<Rightarrow> bool" where
  "is_data_named nm t \<longleftrightarrow>
     node_name t \<in> set [''Data'', ''SimpleData''] \<and> attr_lookup ''name'' t = Some nm"

fun get_data :: "node \<Rightarrow> name_arg \<Rightarrow> py_error + data_result" where
  "get_data pm (Names ns) = Inl NameError"
| "get_data pm (Name nm) =
     (case find_tag (is_data_named nm) pm of
        None \<Rightarrow> Inl ValueError
      | Some val \<Rightarrow>
          (case (if node_name val = ''Data'' then find_tag (\<lambda>t. node_name t = ''value'') val
                 else Some val) of
             None \<Rightarrow> Inl AttributeError
           | Some holder \<Rightarrow>
               (case string_of holder of
                  None \<Rightarrow> Inl AttributeError
                | Some s \<Rightarrow> Inr (Datum (py_strip s)))))"

subsection \<open>\<^verbatim>\<open>coords_from_tag\<close>\<close>

text \<open>
  \<^verbatim>\<open>str.split()\<close> cuts a string into its maximal runs of non-whitespace, and
  \<^verbatim>\<open>str.split(',')\<close> cuts at every comma, keeping empty pieces.
\<close>

fun words_from :: "string \<Rightarrow> string \<Rightarrow> string list" where
  "words_from cur [] = (if cur = [] then [] else [cur])"
| "words_from cur (c # cs) =
     (if py_space c then (if cur = [] then words_from [] cs else cur # words_from [] cs)
      else words_from (cur @ [c]) cs)"

definition py_split :: "string \<Rightarrow> string list" where
  "py_split s = words_from [] s"

fun split_on :: "char \<Rightarrow> string \<Rightarrow> string list" where
  "split_on sep [] = [[]]"
| "split_on sep (c # cs) =
     (if c = sep then [] # split_on sep cs
      else (case split_on sep cs of w # ws \<Rightarrow> (c # w) # ws | [] \<Rightarrow> [[c]]))"

text \<open>
  \<^verbatim>\<open>coords_from_tag(coordinates_tag, first_n_coords=2)\<close>. The builtin \<^verbatim>\<open>float\<close> is
  the parameter \<open>pyfloat\<close>, \<open>None\<close> where it raises \<^verbatim>\<open>ValueError\<close>. The tag
  comes from an attribute lookup that may have found nothing, so it is an option, and
  reading \<^verbatim>\<open>.string\<close> of \<^verbatim>\<open>None\<close>, or stripping a \<^verbatim>\<open>.string\<close> that is
  \<^verbatim>\<open>None\<close>, raises \<^verbatim>\<open>AttributeError\<close>.
\<close>

definition coords_from_tag ::
  "(string \<Rightarrow> 'f option) \<Rightarrow> node option \<Rightarrow> nat \<Rightarrow> py_error + 'f list list" where
  "coords_from_tag pyfloat coordinates_tag first_n_coords =
     (case coordinates_tag of
        None \<Rightarrow> Inl AttributeError
      | Some t \<Rightarrow>
          (case string_of t of
             None \<Rightarrow> Inl AttributeError
           | Some s \<Rightarrow>
               (case those (map (\<lambda>chunk. those (map pyfloat (split_on CHR '','' chunk)))
                                (py_split (py_strip s))) of
                  None \<Rightarrow> Inl ValueError
                | Some pts \<Rightarrow> Inr (map (take first_n_coords) pts))))"

definition named :: "string \<Rightarrow> node \<Rightarrow> bool" where
  "named nm t \<longleftrightarrow> node_name t = nm"

section \<open>Normalization pass\<close>

text \<open>
  \<^verbatim>\<open>_as_html(string)\<close> runs \<^verbatim>\<open>string.replace(k, v)\<close> for the items of \<^verbatim>\<open>REPLACE\<close> in
  the order of the dictionary, each on the result of the one before.
\<close>

definition REPLACE :: "(char \<times> string) list" where
  "REPLACE = [(CHR ''<'', ''&lt;''), (CHR ''>'', ''&gt;''), (CHR ''&'', ''&amp;'')]"

definition py_replace :: "char \<Rightarrow> string \<Rightarrow> string \<Rightarrow> string" where
  "py_replace k v s = concat (map (\<lambda>c. if c = k then v else [c]) s)"

definition as_html :: "string \<Rightarrow> string" where
  "as_html string = fold (\<lambda>(k, v) acc. py_replace k v acc) REPLACE string"

text \<open>
  \<^verbatim>\<open>str(cdata)\<close> of a \<^verbatim>\<open>CData\<close> object. \<^verbatim>\<open>NavigableString\<close> is a subclass of
  \<^verbatim>\<open>str\<close> that does not override \<^verbatim>\<open>__str__\<close>, so the conversion gives the text the
  object was built from; the delimiters \<^verbatim>\<open><![CDATA[\<close> and \<^verbatim>\<open>]]>\<close> are added by
  \<^verbatim>\<open>output_ready\<close> only when the tree is written out.
\<close>

definition py_str :: "string \<Rightarrow> string" where
  "py_str text = text"

text \<open>
  What the body of \<^verbatim>\<open>if e.string and e.string.parent is e\<close> leaves as the only child
  of \<^verbatim>\<open>e\<close>, given the text of the child it found: assigning the stripped text (a
  plain \<^verbatim>\<open>str\<close>) to \<^verbatim>\<open>e.string\<close> puts a new plain string in the place of the child,
  and the second assignment puts a \<^verbatim>\<open>CData\<close> of the same text there.
\<close>

definition set_string :: "string \<Rightarrow> node" where
  "set_string old =
     (let text = py_strip old in
      if list_ex (\<lambda>c. c \<in> set text) (map fst REPLACE)
         \<and> length (py_str text) \<le> length (as_html text)
      then Str CData text
      else Str Plain text)"

text \<open>
  The only child of a tag when that child is a string: the case in which
  \<^verbatim>\<open>e.string.parent is e\<close>.
\<close>

fun sole_string :: "node list \<Rightarrow> string option" where
  "sole_string [Str k s] = Some s"
| "sole_string cs = None"

text \<open>
  The first loop of \<^verbatim>\<open>format\<close> walks \<^verbatim>\<open>soup.descendants\<close>, a generator over the
  \<^verbatim>\<open>next_element\<close> links of the tree, and on a tag it edits the tree while the
  generator is running: the prefix, and the only child when it is a non-empty string
  (an empty string is false in a condition). What the generator yields after such an
  edit is up to \<^verbatim>\<open>bs4\<close>, and the repository asks for no release of it:
  \<^item> up to \<^verbatim>\<open>bs4\<close> 4.12 the generator reads \<^verbatim>\<open>next_element\<close> of the tag after the
    loop body has run, so it goes on to the child that is there now: a replaced child
    is never seen, its replacement is, and the walk reaches every node;
  \<^item> from \<^verbatim>\<open>bs4\<close> 4.13 on it reads the successor before it yields the tag, so it
    goes on to the replaced child, which has been cut out of the tree and has no
    successor: the walk ends there.
  \<open>edit_tags\<close>, \<open>apply_recorded\<close> and \<open>format\<close> are the walk that reaches every
  node; \<open>walk_node\<close> and \<open>format_short_walk\<close> further down are the walk that ends at
  the first replaced child. \<open>edit_tags\<close> is the effect of the edits on a descendant;
  the root itself is not among its own descendants.
\<close>

fun edit_tags :: "node \<Rightarrow> node" where
  "edit_tags (Str k s) = Str k s"
| "edit_tags (Tag pf nm ats cs) =
     Tag (if pf = Some ''kml'' then None else pf) nm ats
       (case sole_string cs of
          Some s \<Rightarrow> if s \<noteq> [] then [set_string s] else cs
        | None \<Rightarrow> map edit_tags cs)"

text \<open>
  On a string the first loop only records it: in \<^verbatim>\<open>destroy\<close> when it is all
  whitespace, in \<^verbatim>\<open>strip\<close> when stripping changes it. The strings it sees are those of
  the edited tree, and strings are immutable, so the next two loops take out or
  replace exactly the strings of the edited tree that meet these tests;
  \<^verbatim>\<open>replace_with\<close> of a plain \<^verbatim>\<open>str\<close> puts a plain string there.
\<close>

fun apply_recorded :: "node \<Rightarrow> node list" where
  "apply_recorded (Str k s) =
     (if py_isspace s then []
      else if py_strip s \<noteq> s then [Str Plain (py_strip s)]
      else [Str k s])"
| "apply_recorded (Tag pf nm ats cs) = [Tag pf nm ats (concat (map apply_recorded cs))]"

text \<open>
  The last loop: \<^verbatim>\<open>soup(...)\<close> lists the descendant tags that have no contents, and
  each of them is decomposed. The list is made once, before anything is removed.
\<close>

fun is_empty_tag :: "node \<Rightarrow> bool" where
  "is_empty_tag (Tag _ _ _ []) = True"
| "is_empty_tag _ = False"

fun remove_empty :: "node \<Rightarrow> node" where
  "remove_empty (Str k s) = Str k s"
| "remove_empty (Tag pf nm ats cs) =
     Tag pf nm ats (map remove_empty (filter (\<lambda>c. \<not> is_empty_tag c) cs))"

text \<open>\<^verbatim>\<open>format(soup, no_empty=False)\<close>, returning the tree it leaves.\<close>

definition format :: "node \<Rightarrow> bool \<Rightarrow> node" where
  "format soup no_empty =
     (case soup of
        Str k s \<Rightarrow> Str k s
      | Tag pf nm ats cs \<Rightarrow>
          (let edited = map edit_tags cs;
               applied = Tag pf nm ats (concat (map apply_recorded edited))
           in if no_empty then remove_empty applied else applied))"

text \<open>A string of the tree that is neither all whitespace nor padded with it.\<close>

fun text_trimmed :: "node \<Rightarrow> bool" where
  "text_trimmed (Str k s) = (\<not> py_isspace s \<and> py_strip s = s)"
| "text_trimmed (Tag _ _ _ _) = True"

text \<open>The same of every string at or below a node.\<close>

fun trimmed :: "node \<Rightarrow> bool" where
  "trimmed (Str k s) = (\<not> py_isspace s \<and> py_strip s = s)"
| "trimmed (Tag _ _ _ cs) = list_all trimmed cs"

text \<open>
  The walk of \<^verbatim>\<open>bs4\<close> 4.13 and later. It goes through the nodes in document order
  as the other walk does, until it comes to a tag whose only child is a non-empty
  string. The tag is edited, the generator yields the child that was replaced, and
  the loop records that child as it would any string: in \<^verbatim>\<open>destroy\<close> when it is
  all whitespace, in \<^verbatim>\<open>strip\<close> when stripping changes it. Then the walk is over, and
  nothing after that tag is seen. \<^verbatim>\<open>extract\<close> of a string that is no longer in the
  tree does nothing, but \<^verbatim>\<open>replace_with\<close> on it raises \<^verbatim>\<open>ValueError\<close>, the last
  thing the third loop does. The result of a walk is what the strings and tags it saw
  have become, and how it ended.
\<close>

datatype walk = Walking | Stopped | Stopped_on_padded

fun walk_node :: "node \<Rightarrow> node list \<times> walk"
  and walk_nodes :: "node list \<Rightarrow> node list \<times> walk"
where
  "walk_node (Str k s) = (apply_recorded (Str k s), Walking)"
| "walk_node (Tag pf nm ats cs) =
     (let pf' = (if pf = Some ''kml'' then None else pf) in
      case sole_string cs of
        None \<Rightarrow> (case walk_nodes cs of (cs', w) \<Rightarrow> ([Tag pf' nm ats cs'], w))
      | Some s \<Rightarrow>
          if s \<noteq> [] then
            ([Tag pf' nm ats [set_string s]],
             if py_isspace s then Stopped
             else if py_strip s \<noteq> s then Stopped_on_padded
             else Stopped)
          else (case walk_nodes cs of (cs', w) \<Rightarrow> ([Tag pf' nm ats cs'], w)))"
| "walk_nodes [] = ([], Walking)"
| "walk_nodes (c # cs) =
     (case walk_node c of
        (c', Walking) \<Rightarrow> (case walk_nodes cs of (cs', w) \<Rightarrow> (c' @ cs', w))
      | (c', w) \<Rightarrow> (c' @ cs, w))"

definition format_short_walk :: "node \<Rightarrow> bool \<Rightarrow> py_error + node" where
  "format_short_walk soup no_empty =
     (case soup of
        Str k s \<Rightarrow> Inr (Str k s)
      | Tag pf nm ats cs \<Rightarrow>
          (case walk_nodes cs of
             (cs', Stopped_on_padded) \<Rightarrow> Inl ValueError
           | (cs', w) \<Rightarrow>
               (let applied = Tag pf nm ats cs'
                in Inr (if no_empty then remove_empty applied else applied))))"





text \<open>
  A node below which no tag has a non-empty string as its only child: there the first
  loop replaces nothing, and the two walks are the same.
\<close>

fun no_only_text :: "node \<Rightarrow> bool" where
  "no_only_text (Str k s) = True"
| "no_only_text (Tag pf nm ats cs) =
     ((case sole_string cs of None \<Rightarrow> True | Some s \<Rightarrow> s = []) \<and> list_all no_only_text cs)"

section \<open>Spatial index builder\<close>

text \<open>
  The grid-cell routines of the module \<^verbatim>\<open>spindex\<close> are collaborators: a record of
  three functions from the points, the scale and the named arguments (only
  \<^verbatim>\<open>boundary_cells\<close> is ever passed) to whatever collection of cells they return,
  read as the set of its items. \<^verbatim>\<open>_cells\<close> looks the function up by dimension.
\<close>

datatype 'f points = Point "'f list" | Path "'f list list"

record ('f, 'c) spindex =
  get_cell :: "'f points \<Rightarrow> int \<Rightarrow> 'c set option \<Rightarrow> 'c set"
  get_cells_1d :: "'f points \<Rightarrow> int \<Rightarrow> 'c set option \<Rightarrow> 'c set"
  get_cells_2d :: "'f points \<Rightarrow> int \<Rightarrow> 'c set option \<Rightarrow> 'c set"

definition cells ::
  "('f, 'c) spindex \<Rightarrow> 'f points \<Rightarrow> int \<Rightarrow> int \<Rightarrow> 'c set option \<Rightarrow> py_error + 'c set" where
  "cells sx pts dimension scale boundary_cells =
     (if dimension = 0 then Inr (get_cell sx pts scale boundary_cells)
      else if dimension = 1 then Inr (get_cells_1d sx pts scale boundary_cells)
      else if dimension = 2 then Inr (get_cells_2d sx pts scale boundary_cells)
      else Inl ValueError)"

text \<open>\<^verbatim>\<open>tag.name\<close> as an attribute of a tag: the first descendant of that name.\<close>

definition child_named :: "string \<Rightarrow> node \<Rightarrow> node option" where
  "child_named nm t = find_tag (named nm) t"

text \<open>The loop of \<^verbatim>\<open>_spdx_pg\<close> over the inner boundaries.\<close>

fun subtract_holes ::
  "('f, 'c) spindex \<Rightarrow> (string \<Rightarrow> 'f option) \<Rightarrow> int \<Rightarrow> node list \<Rightarrow> 'c set
     \<Rightarrow> py_error + 'c set" where
  "subtract_holes sx pyfloat scale [] covered = Inr covered"
| "subtract_holes sx pyfloat scale (ibi # rest) covered =
     (case coords_from_tag pyfloat (child_named ''coordinates'' ibi) 2 of
        Inl e \<Rightarrow> Inl e
      | Inr inner \<Rightarrow>
          (case cells sx (Path inner) 1 scale None of
             Inl e \<Rightarrow> Inl e
           | Inr hole_rim \<Rightarrow>
               (case cells sx (Path inner) 2 scale (Some hole_rim) of
                  Inl e \<Rightarrow> Inl e
                | Inr hole_fill \<Rightarrow>
                    subtract_holes sx pyfloat scale rest
                      (covered - (hole_fill - hole_rim)))))"

definition spdx_pg ::
  "('f, 'c) spindex \<Rightarrow> (string \<Rightarrow> 'f option) \<Rightarrow> node \<Rightarrow> int \<Rightarrow> py_error + 'c set" where
  "spdx_pg sx pyfloat pg scale =
     (case child_named ''outerBoundaryIs'' pg of
        None \<Rightarrow> Inl AttributeError
      | Some obi \<Rightarrow>
          (case coords_from_tag pyfloat (child_named ''coordinates'' obi) 2 of
             Inl e \<Rightarrow> Inl e
           | Inr outer \<Rightarrow>
               (case cells sx (Path outer) 2 scale None of
                  Inl e \<Rightarrow> Inl e
                | Inr covered \<Rightarrow>
                    subtract_holes sx pyfloat scale
                      (find_all (named ''innerBoundaryIs'') pg) covered)))"

definition spdx_ls ::
  "('f, 'c) spindex \<Rightarrow> (string \<Rightarrow> 'f option) \<Rightarrow> node \<Rightarrow> int \<Rightarrow> py_error + 'c set" where
  "spdx_ls sx pyfloat ls scale =
     (case coords_from_tag pyfloat (child_named ''coordinates'' ls) 2 of
        Inl e \<Rightarrow> Inl e
      | Inr pts \<Rightarrow> cells sx (Path pts) 1 scale None)"

definition spdx_pt ::
  "('f, 'c) spindex \<Rightarrow> (string \<Rightarrow> 'f option) \<Rightarrow> node \<Rightarrow> int \<Rightarrow> py_error + 'c set" where
  "spdx_pt sx pyfloat pt scale =
     (case coords_from_tag pyfloat (child_named ''coordinates'' pt) 2 of
        Inl e \<Rightarrow> Inl e
      | Inr [] \<Rightarrow> Inl IndexError
      | Inr (p # _) \<Rightarrow> cells sx (Point p) 0 scale None)"

text \<open>
  \<^verbatim>\<open>_TAG_TO_FUNCTION\<close> and \<^verbatim>\<open>_spdx_mg\<close> call each other: the table sends a
  \<^verbatim>\<open>MultiGeometry\<close> to \<^verbatim>\<open>_spdx_mg\<close>, which looks every geometry below its argument
  up in the table. The recursion ends because a descendant is smaller than its
  ancestor.
\<close>

lemma size_descendants: "d \<in> set (descendants n) \<Longrightarrow> size d < size n"
proof (induction n arbitrary: d rule: descendants.induct)
  case (1 k s)
  then show ?case by simp
next
  case (2 pf nm ats cs)
  from "2.prems" obtain c where c: "c \<in> set cs" and d: "d = c \<or> d \<in> set (descendants c)"
    by auto
  from c have "size c \<le> size_list size cs" by (simp add: size_list_estimation')
  moreover from d "2.IH"[OF c, of d] have "size d \<le> size c"
    by (auto simp: less_imp_le)
  ultimately show ?case by simp
qed

lemma size_find_all: "d \<in> set (find_all P n) \<Longrightarrow> size d < size n"
  by (simp add: find_all_def size_descendants)

definition geometry_names :: "string list" where
  "geometry_names = [''MultiGeometry'', ''Polygon'', ''LineString'', ''Point'']"

text \<open>\<^verbatim>\<open>cells.update(...)\<close> over the results, stopping at the first that raised.\<close>

fun union_results :: "(py_error + 'c set) list \<Rightarrow> 'c set \<Rightarrow> py_error + 'c set" where
  "union_results [] acc = Inr acc"
| "union_results (r # rs) acc =
     (case r of Inl e \<Rightarrow> Inl e | Inr s \<Rightarrow> union_results rs (acc \<union> s))"

function tag_to_function ::
  "('f, 'c) spindex \<Rightarrow> (string \<Rightarrow> 'f option) \<Rightarrow> string \<Rightarrow> node \<Rightarrow> int \<Rightarrow> py_error + 'c set"
  and spdx_mg ::
  "('f, 'c) spindex \<Rightarrow> (string \<Rightarrow> 'f option) \<Rightarrow> node \<Rightarrow> int \<Rightarrow> py_error + 'c set"
where
  "tag_to_function sx pyfloat nm geom scale =
     (if nm = ''MultiGeometry'' then spdx_mg sx pyfloat geom scale
      else if nm = ''Polygon'' then spdx_pg sx pyfloat geom scale
      else if nm = ''LineString'' then spdx_ls sx pyfloat geom scale
      else if nm = ''Point'' then spdx_pt sx pyfloat geom scale
      else Inl KeyError)"
| "spdx_mg sx pyfloat mg scale =
     union_results
       (map (\<lambda>geom. tag_to_function sx pyfloat (node_name geom) geom scale)
            (find_all (\<lambda>t. node_name t \<in> set geometry_names) mg)) {}"
  by pat_completeness auto
termination
  by (relation "measure (\<lambda>x. case x of
          Inl (sx, pf, nm, geom, scale) \<Rightarrow> 2 * size geom + 1
        | Inr (sx, pf, mg, scale) \<Rightarrow> 2 * size mg)")
     (auto dest: size_find_all)

declare tag_to_function.simps [simp del] spdx_mg.simps [simp del]

text \<open>
  \<^verbatim>\<open>_spatial_index(pm, scale)\<close>: the table's names are tried in the table's order, and
  the first one that \<^verbatim>\<open>pm.find\<close> finds decides (a tag is always true in a
  condition). When none is found the generator is empty and the \<^verbatim>\<open>StopIteration\<close> is
  turned into \<^verbatim>\<open>ValueError\<close>.
\<close>

fun first_geometry :: "string list \<Rightarrow> node \<Rightarrow> (string \<times> node) option" where
  "first_geometry [] pm = None"
| "first_geometry (nm # nms) pm =
     (case find_tag (named nm) pm of
        Some tag \<Rightarrow> Some (nm, tag)
      | None \<Rightarrow> first_geometry nms pm)"

definition spatial_index_pm ::
  "('f, 'c) spindex \<Rightarrow> (string \<Rightarrow> 'f option) \<Rightarrow> node \<Rightarrow> int \<Rightarrow> py_error + 'c set" where
  "spatial_index_pm sx pyfloat pm scale =
     (case first_geometry geometry_names pm of
        None \<Rightarrow> Inl ValueError
      | Some (nm, tag) \<Rightarrow> tag_to_function sx pyfloat nm tag scale)"

text \<open>
  \<^verbatim>\<open>spatial_index(soup, scale=16)\<close>. The index is a dictionary from cells to sets of
  placemark positions; the inner loop adds the position to the pool of every cell.
\<close>

definition add_to_index :: "('c \<rightharpoonup> nat set) \<Rightarrow> 'c set \<Rightarrow> nat \<Rightarrow> ('c \<rightharpoonup> nat set)" where
  "add_to_index index cs i =
     (\<lambda>cell. if cell \<in> cs
        then Some (insert i (case index cell of None \<Rightarrow> {} | Some pool \<Rightarrow> pool))
        else index cell)"

fun index_placemarks ::
  "('f, 'c) spindex \<Rightarrow> (string \<Rightarrow> 'f option) \<Rightarrow> int \<Rightarrow> nat \<Rightarrow> node list
     \<Rightarrow> ('c \<rightharpoonup> nat set) \<Rightarrow> py_error + ('c \<rightharpoonup> nat set)" where
  "index_placemarks sx pyfloat scale i [] index = Inr index"
| "index_placemarks sx pyfloat scale i (pm # pms) index =
     (case spatial_index_pm sx pyfloat pm scale of
        Inl e \<Rightarrow> Inl e
      | Inr cs \<Rightarrow> index_placemarks sx pyfloat scale (Suc i) pms (add_to_index index cs i))"

definition spatial_index ::
  "('f, 'c) spindex \<Rightarrow> (string \<Rightarrow> 'f option) \<Rightarrow> node \<Rightarrow> int
     \<Rightarrow> py_error + ('c \<rightharpoonup> nat set)" where
  "spatial_index sx pyfloat soup scale =
     index_placemarks sx pyfloat scale 0 (find_all (named ''Placemark'') soup) Map.empty"

subsection \<open>\<^verbatim>\<open>spatial_index_stats\<close>\<close>

text \<open>
  \<^verbatim>\<open>spatial_index_stats(soup, index)\<close> never reads \<^verbatim>\<open>soup\<close>. The dictionary is given as
  the list of its items in iteration order, and \<^verbatim>\<open>len(v)\<close> is the number of elements
  of the pool. The floating-point results \<^verbatim>\<open>avg\<close> and \<^verbatim>\<open>stdev\<close> are computed over
  the reals, \<^verbatim>\<open>** 0.5\<close> being the square root; rounding is not modelled. The first
  division raises \<^verbatim>\<open>ZeroDivisionError\<close> on an empty index. The median is a number
  or, from \<^verbatim>\<open>sorted(median)\<close>, a list; \<^verbatim>\<open>set(...)\<close> of the slice is the slice without
  repetitions, and \<^verbatim>\<open>median.pop()\<close> of a set of one element is that element.
  \<open>median_of\<close> is the \<^verbatim>\<open>if\<close>/\<^verbatim>\<open>else\<close> block that assigns \<^verbatim>\<open>median\<close>.
\<close>

datatype median = Single int | Both "int list"

record stats_result =
  st_avg :: real
  st_stdev :: real
  st_median :: median
  st_min :: int
  st_max :: int
  st_range :: int
  st_data :: "int list"

definition py_min :: "int list \<Rightarrow> int" where
  "py_min xs = fold min (tl xs) (hd xs)"

definition py_max :: "int list \<Rightarrow> int" where
  "py_max xs = fold max (tl xs) (hd xs)"

definition py_slice :: "'a list \<Rightarrow> nat \<Rightarrow> nat \<Rightarrow> 'a list" where
  "py_slice xs lo hi = take (hi - lo) (drop lo xs)"

definition median_of :: "int list \<Rightarrow> median" where
  "median_of stats =
     (let max_index = length stats - 1 in
      if max_index mod 2 = 0 then
        (let med_index = max_index div 2 in Single (sort stats ! med_index))
      else
        (let med_index_lo = max_index div 2;
             med_index_hi = med_index_lo + 1;
             median = remdups (py_slice (sort stats) med_index_lo (med_index_hi + 1))
         in if length median = 1 then Single (hd median) else Both (sort median)))"

definition spatial_index_stats :: "('c \<times> nat set) list \<Rightarrow> py_error + stats_result" where
  "spatial_index_stats index =
     (let stats = map (\<lambda>(cell, v). int (card v)) index in
      if length stats = 0 then Inl ZeroDivisionError
      else
        let avg = real_of_int (sum_list stats) / real (length stats);
            m = py_min stats;
            M = py_max stats;
            median = median_of stats;
            range = M - m;
            stdev = sqrt (sum_list (map (\<lambda>stat. (real_of_int stat - avg)\<^sup>2) stats)
                          / real (length stats))
        in Inr \<lparr> st_avg = avg, st_stdev = stdev, st_median = median, st_min = m,
                 st_max = M, st_range = range, st_data = stats \<rparr>)"

section \<open>Coloring pipeline\<close>

subsection \<open>References found by search\<close>

text \<open>
  \<^verbatim>\<open>apply_color\<close> keeps the tags that a search returned and edits them later, so
  here a search returns paths: \<open>find_path\<close> the path of what \<^verbatim>\<open>tag.find\<close> returns,
  \<open>tag_paths\<close> the paths of what \<^verbatim>\<open>tag.find_all\<close> returns, in the same order. The
  path of a node among the later siblings is the path found there with its first
  position moved up by one.
\<close>

fun shift :: "nat list \<Rightarrow> nat list" where
  "shift [] = []"
| "shift (k # q) = Suc k # q"

fun find_path :: "(node \<Rightarrow> bool) \<Rightarrow> node \<Rightarrow> nat list option"
  and find_path_in :: "(node \<Rightarrow> bool) \<Rightarrow> node list \<Rightarrow> nat list option"
where
  "find_path P (Str _ _) = None"
| "find_path P (Tag _ _ _ cs) = find_path_in P cs"
| "find_path_in P [] = None"
| "find_path_in P (c # cs) =
     (if is_tag c \<and> P c then Some [0]
      else (case find_path P c of
              Some q \<Rightarrow> Some (0 # q)
            | None \<Rightarrow> map_option shift (find_path_in P cs)))"

fun tag_paths :: "(node \<Rightarrow> bool) \<Rightarrow> node \<Rightarrow> nat list list"
  and tag_paths_in :: "(node \<Rightarrow> bool) \<Rightarrow> node list \<Rightarrow> nat list list"
where
  "tag_paths P (Str _ _) = []"
| "tag_paths P (Tag _ _ _ cs) = tag_paths_in P cs"
| "tag_paths_in P [] = []"
| "tag_paths_in P (c # cs) =
     (if is_tag c \<and> P c then [[0]] else []) @ map ((#) 0) (tag_paths P c)
       @ map shift (tag_paths_in P cs)"

subsection \<open>Identifiers and their order\<close>

text \<open>
  A color is a natural number. \<open>str_of_nat\<close> is its decimal form, as the f-string
  \<^verbatim>\<open>f'#color{coloring[i]}'\<close> writes it, and \<open>int_of_char\<close> is \<^verbatim>\<open>int\<close> of a string of
  one character.
\<close>

definition digit_char :: "nat \<Rightarrow> char" where
  "digit_char d = ''0123456789'' ! d"

fun str_of_nat :: "nat \<Rightarrow> string" where
  "str_of_nat n = (if n < 10 then [digit_char n] else str_of_nat (n div 10) @ [digit_char (n mod 10)])"

declare str_of_nat.simps [simp del]

definition int_of_char :: "char \<Rightarrow> py_error + nat" where
  "int_of_char c = (if c \<in> set ''0123456789'' then Inr (of_char c - 48) else Inl ValueError)"

text \<open>
  \<^verbatim>\<open>sorted(ids)\<close> sorts strings, and Python compares strings character by character
  by code point, a proper prefix coming first. The set \<^verbatim>\<open>ids\<close> is the list of its
  elements without repetition; \<open>py_sorted\<close> sorts it by insertion, which on distinct
  elements of a total order gives the one sorted list there is.
\<close>

fun str_le :: "string \<Rightarrow> string \<Rightarrow> bool" where
  "str_le [] ys = True"
| "str_le (x # xs) [] = False"
| "str_le (x # xs) (y # ys) =
     ((of_char x :: nat) < of_char y \<or> (x = y \<and> str_le xs ys))"

fun insort_str :: "string \<Rightarrow> string list \<Rightarrow> string list" where
  "insort_str x [] = [x]"
| "insort_str x (y # ys) = (if str_le x y then x # y # ys else y # insort_str x ys)"

definition py_sorted :: "string list \<Rightarrow> string list" where
  "py_sorted xs = foldr insort_str xs []"

definition set_add :: "string \<Rightarrow> string list \<Rightarrow> string list" where
  "set_add x xs = (if x \<in> set xs then xs else xs @ [x])"

subsection \<open>Editing a tag\<close>

text \<open>
  \<^verbatim>\<open>tag.string = value\<close> replaces the contents of the tag by one plain string;
  \<^verbatim>\<open>tag.insert(position, new)\<close> puts a new child at a position;
  \<^verbatim>\<open>tag[k] = v\<close> sets an attribute.
\<close>

definition assign_string :: "string \<Rightarrow> node \<Rightarrow> node" where
  "assign_string text n =
     (case n of Tag pf nm ats cs \<Rightarrow> Tag pf nm ats [Str Plain text] | s \<Rightarrow> s)"

definition insert_child :: "nat \<Rightarrow> node \<Rightarrow> node \<Rightarrow> node" where
  "insert_child position new n =
     (case n of
        Tag pf nm ats cs \<Rightarrow> Tag pf nm ats (take position cs @ new # drop position cs)
      | s \<Rightarrow> s)"

definition set_attr :: "string \<Rightarrow> string \<Rightarrow> node \<Rightarrow> node" where
  "set_attr k v n =
     (case n of
        Tag pf nm ats cs \<Rightarrow>
          Tag pf nm (if k \<in> fst ` set ats then map (\<lambda>(k', v'). if k' = k then (k', v) else (k', v')) ats
                     else ats @ [(k, v)]) cs
      | s \<Rightarrow> s)"

subsection \<open>\<^verbatim>\<open>apply_color\<close>\<close>

text \<open>
  The first loop. \<^verbatim>\<open>(pm.styleUrl or add(pm, 'styleUrl')).string = url\<close>: the first
  \<^verbatim>\<open>styleUrl\<close> below the placemark when there is one (a tag is always true in a
  condition), a new last child otherwise. The placemarks are those found before the
  loop begins, in document order. One that an earlier assignment has cut out of the
  tree (it stood inside a \<^verbatim>\<open>styleUrl\<close> whose contents were replaced) is no longer
  where its path leads; nothing below it was edited before it was cut out, and what
  is edited below it afterwards is the contents of a \<^verbatim>\<open>styleUrl\<close>, so it has a
  \<^verbatim>\<open>styleUrl\<close> below it exactly when it had one in the document the loop began
  with. If it has one, that tag is edited outside the document, which stays as it
  is. If it has none, \<^verbatim>\<open>add\<close> looks up \<^verbatim>\<open>new_tag\<close> on the topmost tag of the piece
  that was cut out; on a tag that is a search for a child of that name, it gives
  \<^verbatim>\<open>None\<close>, and calling it raises \<^verbatim>\<open>TypeError\<close>.
\<close>

definition set_style_url :: "node \<Rightarrow> node \<Rightarrow> nat list \<Rightarrow> string \<Rightarrow> py_error + node" where
  "set_style_url original soup pm url =
     (case get_at soup pm of
        Some (Tag pf nm ats cs) \<Rightarrow>
          (case find_path (named ''styleUrl'') (Tag pf nm ats cs) of
             Some q \<Rightarrow> Inr (update_at soup (pm @ q) (assign_string url))
           | None \<Rightarrow>
               (case add soup pm (Name ''styleUrl'') of
                  Some (soup', new) \<Rightarrow> Inr (update_at soup' new (assign_string url))
                | None \<Rightarrow> Inl TypeError))
      | _ \<Rightarrow>
          (case get_at original pm of
             Some t \<Rightarrow>
               if find_path (named ''styleUrl'') t = None then Inl TypeError else Inr soup
           | None \<Rightarrow> Inl TypeError))"

text \<open>
  \<^verbatim>\<open>coloring[i]\<close> raises \<^verbatim>\<open>KeyError\<close> for a placemark without a color, before that
  placemark is touched. \<open>color_from\<close> is the loop from its \<open>i\<close>-th round on, with the
  document the loop began with; \<open>color_placemarks\<close> is the loop on a document.
\<close>

fun color_from ::
  "node \<Rightarrow> node \<Rightarrow> (nat \<rightharpoonup> nat) \<Rightarrow> nat \<Rightarrow> nat list list \<Rightarrow> string list
     \<Rightarrow> py_error + (node \<times> string list)" where
  "color_from original soup coloring i [] ids = Inr (soup, ids)"
| "color_from original soup coloring i (pm # pms) ids =
     (case coloring i of
        None \<Rightarrow> Inl KeyError
      | Some c \<Rightarrow>
          (let url = ''#color'' @ str_of_nat c
           in case set_style_url original soup pm url of
                Inl e \<Rightarrow> Inl e
              | Inr soup' \<Rightarrow>
                  color_from original soup' coloring (Suc i) pms (set_add (tl url) ids)))"

definition color_placemarks ::
  "node \<Rightarrow> (nat \<rightharpoonup> nat) \<Rightarrow> nat \<Rightarrow> nat list list \<Rightarrow> string list
     \<Rightarrow> py_error + (node \<times> string list)" where
  "color_placemarks soup coloring i pms ids = color_from soup soup coloring i pms ids"

text \<open>
  The second loop goes through the list of all \<^verbatim>\<open>Style\<close> and \<^verbatim>\<open>StyleMap\<close> tags,
  made before anything is removed, and decomposes those whose \<^verbatim>\<open>id\<close> is in
  \<^verbatim>\<open>ids\<close>. \<^verbatim>\<open>decompose\<close> also empties every tag below the one it removes, and such
  a tag, when it is a \<^verbatim>\<open>Style\<close> or \<^verbatim>\<open>StyleMap\<close> itself, is still in the list: its turn
  comes, \<^verbatim>\<open>has_attr\<close> finds no attribute dictionary on it and the test
  \<^verbatim>\<open>key in None\<close> raises \<^verbatim>\<open>TypeError\<close>.
\<close>

definition is_style :: "node \<Rightarrow> bool" where
  "is_style t \<longleftrightarrow> node_name t \<in> set [''Style'', ''StyleMap'']"

definition stale_style :: "string list \<Rightarrow> node \<Rightarrow> bool" where
  "stale_style ids t \<longleftrightarrow>
     is_tag t \<and> is_style t \<and>
     (case attr_lookup ''id'' t of None \<Rightarrow> False | Some v \<Rightarrow> v \<in> set ids)"

fun decompose_styles :: "string list \<Rightarrow> node \<Rightarrow> node" where
  "decompose_styles ids (Str k s) = Str k s"
| "decompose_styles ids (Tag pf nm ats cs) =
     Tag pf nm ats (map (decompose_styles ids) (filter (\<lambda>c. \<not> stale_style ids c) cs))"

definition remove_styles :: "node \<Rightarrow> string list \<Rightarrow> py_error + node" where
  "remove_styles soup ids =
     (if list_ex (\<lambda>t. stale_style ids t \<and> find_all is_style t \<noteq> []) (descendants soup)
      then Inl TypeError
      else Inr (decompose_styles ids soup))"

text \<open>
  The body of the third loop, for one id. \<open>add_string\<close> is the statement
  \<^verbatim>\<open>add(tag, names).string = value\<close>. In the three statements of that form the right
  side is evaluated first, so a \<^verbatim>\<open>KeyError\<close> of \<^verbatim>\<open>colorize\<close> or \<^verbatim>\<open>icons\<close> comes
  before the tags of that statement are made. \<^verbatim>\<open>soup.Document\<close> is the first
  \<^verbatim>\<open>Document\<close> tag of the tree, looked up again for every id, and \<^verbatim>\<open>None\<close> (so that
  \<^verbatim>\<open>.insert\<close> raises \<^verbatim>\<open>AttributeError\<close>) when there is none. The color number is
  read back from the id as \<^verbatim>\<open>int(i[-1])\<close>, the last character alone.
\<close>

definition add_string ::
  "node \<Rightarrow> nat list \<Rightarrow> name_arg \<Rightarrow> string \<Rightarrow> py_error + node" where
  "add_string soup tag name text =
     (case add soup tag name of
        None \<Rightarrow> Inl AttributeError
      | Some (soup', new) \<Rightarrow> Inr (update_at soup' new (assign_string text)))"

definition new_style ::
  "node \<Rightarrow> string \<Rightarrow> (nat \<rightharpoonup> string) \<Rightarrow> (nat \<rightharpoonup> string) \<Rightarrow> py_error + node" where
  "new_style soup i colorize icons =
     (case find_path (named ''Document'') soup of
        None \<Rightarrow> Inl AttributeError
      | Some document \<Rightarrow>
          (let soup1 = update_at soup document (insert_child 0 (new_tag ''Style''));
               style = document @ [0];
               soup2 = update_at soup1 style (set_attr ''id'' i)
           in if i = [] then Inl IndexError
              else
                (case int_of_char (last i) of
                   Inl e \<Rightarrow> Inl e
                 | Inr n \<Rightarrow>
                     (case colorize n of
                        None \<Rightarrow> Inl KeyError
                      | Some fill \<Rightarrow>
                          (case add_string soup2 style
                                  (Names [Name ''PolyStyle'', Name ''color'']) fill of
                             Inl e \<Rightarrow> Inl e
                           | Inr soup3 \<Rightarrow>
                               (case add_string soup3 style
                                       (Names [Name ''LineStyle'', Name ''color''])
                                       ''7fcccccc'' of
                                  Inl e \<Rightarrow> Inl e
                                | Inr soup4 \<Rightarrow>
                                    (case icons n of
                                       None \<Rightarrow> Inl KeyError
                                     | Some icon \<Rightarrow>
                                         add_string soup4 style
                                           (Names [Name ''IconStyle'', Name ''Icon'',
                                                   Name ''href'']) icon)))))))"

fun add_styles ::
  "node \<Rightarrow> string list \<Rightarrow> (nat \<rightharpoonup> string) \<Rightarrow> (nat \<rightharpoonup> string) \<Rightarrow> py_error + node" where
  "add_styles soup [] colorize icons = Inr soup"
| "add_styles soup (i # rest) colorize icons =
     (case new_style soup i colorize icons of
        Inl e \<Rightarrow> Inl e
      | Inr soup' \<Rightarrow> add_styles soup' rest colorize icons)"

definition apply_color ::
  "node \<Rightarrow> (nat \<rightharpoonup> nat) \<Rightarrow> (nat \<rightharpoonup> string) \<Rightarrow> (nat \<rightharpoonup> string) \<Rightarrow> py_error + node" where
  "apply_color soup coloring colorize icons =
     (case color_placemarks soup coloring 0 (tag_paths (named ''Placemark'') soup) [] of
        Inl e \<Rightarrow> Inl e
      | Inr (soup1, ids) \<Rightarrow>
          (case remove_styles soup1 ids of
             Inl e \<Rightarrow> Inl e
           | Inr soup2 \<Rightarrow> add_styles soup2 (py_sorted ids) colorize icons))"

text \<open>
  The \<^verbatim>\<open>Style\<close> element the loop body builds from an id, a fill color and an icon, and
  the one it builds for an id when both of its lookups succeed.
\<close>

definition style_element :: "string \<Rightarrow> string \<Rightarrow> string \<Rightarrow> node" where
  "style_element i fill icon =
     Tag None ''Style'' [(''id'', i)]
       [Tag None ''PolyStyle'' [] [Tag None ''color'' [] [Str Plain fill]],
        Tag None ''LineStyle'' [] [Tag None ''color'' [] [Str Plain ''7fcccccc'']],
        Tag None ''IconStyle'' [] [Tag None ''Icon'' [] [Tag None ''href'' [] [Str Plain icon]]]]"

definition last_digit :: "string \<Rightarrow> nat" where
  "last_digit i = (case int_of_char (last i) of Inr n \<Rightarrow> n | Inl e \<Rightarrow> 0)"

definition style_of :: "(nat \<rightharpoonup> string) \<Rightarrow> (nat \<rightharpoonup> string) \<Rightarrow> string \<Rightarrow> node" where
  "style_of colorize icons i =
     style_element i
       (case colorize (last_digit i) of Some fill \<Rightarrow> fill | None \<Rightarrow> [])
       (case icons (last_digit i) of Some icon \<Rightarrow> icon | None \<Rightarrow> [])"

section \<open>Sample inputs\<close>

text \<open>
  Concrete inputs on which the theorems below are exercised: a reader of one-digit
  numbers in the place of \<^verbatim>\<open>float\<close>, grid-cell routines that answer with fixed
  sets of cells, and small documents.
\<close>

definition digit_float :: "string \<Rightarrow> int option" where
  "digit_float s =
     (case s of
        [c] \<Rightarrow> (if c \<in> set ''0123456789'' then Some (int (of_char c) - 48) else None)
      | _ \<Rightarrow> None)"

definition sample_sx :: "(int, nat) spindex" where
  "sample_sx = \<lparr> get_cell = (\<lambda>pts scale bc. {0}),
                 get_cells_1d = (\<lambda>pts scale bc. {1}),
                 get_cells_2d = (\<lambda>pts scale bc. if bc = None then {0, 1, 2, 3} else {1, 2}) \<rparr>"

definition ring :: "string \<Rightarrow> string \<Rightarrow> node" where
  "ring boundary text =
     Tag None boundary [] [Tag None ''LinearRing'' []
       [Tag None ''coordinates'' [] [Str Plain text]]]"

definition sample_polygon :: node where
  "sample_polygon = Tag None ''Polygon'' []
     [ring ''outerBoundaryIs'' ''0,0 9,0 9,9 0,0'',
      ring ''innerBoundaryIs'' '' 3,3 5,3 5,5 3,3 '']"

definition point_placemark :: node where
  "point_placemark = Tag None ''Placemark'' []
     [Tag None ''Point'' [] [Tag None ''coordinates'' [] [Str Plain ''1,2'']]]"

definition bare_placemark :: node where
  "bare_placemark = Tag None ''Placemark'' [] [Tag None ''name'' [] [Str Plain ''x'']]"

definition sample_soup :: node where
  "sample_soup = Tag None ''[document]'' []
     [Tag None ''kml'' [] [Tag None ''Document'' [] [point_placemark, bare_placemark]]]"

definition sample_index :: "(nat \<times> nat set) list" where
  "sample_index = [(0, {0, 1}), (1, {0}), (2, {0, 1, 2}), (3, {2})]"

definition nested_empty_soup :: node where
  "nested_empty_soup = Tag None ''[document]'' [] [Tag None ''a'' [] [Tag None ''b'' [] []]]"

definition comment_then_text_soup :: node where
  "comment_then_text_soup = Tag None ''[document]'' []
     [Tag None ''a'' [] [Str Preformatted '' '', Str Plain ''x<y'']]"

definition description_soup :: node where
  "description_soup = Tag None ''[document]'' []
     [Tag (Some ''kml'') ''description'' [] [Str Plain ''a<b'']]"

definition two_placemarks :: node where
  "two_placemarks = Tag None ''[document]'' []
     [Tag None ''kml'' [] [Tag None ''Document'' []
        [Tag None ''Placemark'' [] [Tag None ''name'' [] [Str Plain ''a'']],
         Tag None ''Placemark'' [] [Tag None ''styleUrl'' [] [Str Plain ''#old'']]]]]"

definition one_placemark :: node where
  "one_placemark = Tag None ''[document]'' []
     [Tag None ''kml'' [] [Tag None ''Document'' []
        [Tag None ''Placemark'' [] [Tag None ''name'' [] [Str Plain ''a'']]]]]"

definition sample_coloring :: "nat \<rightharpoonup> nat" where
  "sample_coloring = [0 \<mapsto> 2, 1 \<mapsto> 10]"

definition sample_colorize :: "nat \<rightharpoonup> string" where
  "sample_colorize = [0 \<mapsto> ''7f000000'', 2 \<mapsto> ''7f065fb4'', 10 \<mapsto> ''7f101010'']"

definition sample_icons :: "nat \<rightharpoonup> string" where
  "sample_icons = [0 \<mapsto> ''zero.png'', 2 \<mapsto> ''two.png'', 10 \<mapsto> ''ten.png'']"

definition colored_two_placemarks :: node where
  "colored_two_placemarks = Tag None ''[document]'' []
     [Tag None ''kml'' [] [Tag None ''Document'' []
        [style_element ''color2'' ''7f065fb4'' ''two.png'',
         style_element ''color10'' ''7f000000'' ''zero.png'',
         Tag None ''Placemark'' []
           [Tag None ''name'' [] [Str Plain ''a''],
            Tag None ''styleUrl'' [] [Str Plain ''#color2'']],
         Tag None ''Placemark'' [] [Tag None ''styleUrl'' [] [Str Plain ''#color10'']]]]]"

definition colored_one_placemark :: node where
  "colored_one_placemark = Tag None ''[document]'' []
     [Tag None ''kml'' [] [Tag None ''Document'' []
        [style_element ''color12'' ''7f065fb4'' ''two.png'',
         Tag None ''Placemark'' []
           [Tag None ''name'' [] [Str Plain ''a''],
            Tag None ''styleUrl'' [] [Str Plain ''#color12'']]]]]"

definition overlap_sx :: "(int, nat) spindex" where
  "overlap_sx = \<lparr> get_cell = (\<lambda>pts scale bc. {0}),
      get_cells_1d = (\<lambda>pts scale bc.
         if pts = Path [[3, 3], [5, 3], [5, 5], [3, 3]] then {1} else {2}),
      get_cells_2d = (\<lambda>pts scale bc. if bc = None then {0, 1, 2, 3} else {1, 2}) \<rparr>"

definition overlapping_polygon :: node where
  "overlapping_polygon = Tag None ''Polygon'' []
     [ring ''outerBoundaryIs'' ''0,0 9,0 9,9 0,0'',
      ring ''innerBoundaryIs'' ''3,3 5,3 5,5 3,3'',
      ring ''innerBoundaryIs'' ''4,4 6,4 6,6 4,4'']"

definition name_and_description :: node where
  "name_and_description = Tag None ''[document]'' []
     [Tag None ''kml'' [] [Tag None ''Document'' []
        [Tag None ''name'' [] [Str Plain ''x''],
         Str Plain [CHR 0x0A],
         Tag None ''description'' [] [Str Plain '' y '']]]]"


definition space_then_padded_soup :: node where
  "space_then_padded_soup = Tag None ''[document]'' []
     [Tag None ''kml'' []
        [Tag None ''name'' [] [Str Plain '' ''],
         Tag None ''description'' [] [Str Plain '' y '']]]"

definition nested_placemarks :: "node list \<Rightarrow> node" where
  "nested_placemarks inner = Tag None ''[document]'' []
     [Tag None ''kml'' [] [Tag None ''Document'' []
        [Tag None ''Placemark'' []
           [Tag None ''styleUrl'' [] [Tag None ''Placemark'' [] inner]]]]]"

section \<open>Properties\<close>

text \<open>
  C10. Calling \<^verbatim>\<open>add\<close> with an empty list of names creates and appends nothing: the
  tree is returned as it was, and the reference returned is the anchor itself.
\<close>

theorem add_empty_list_returns_anchor:
  "add doc tag (Names []) = Some (doc, tag)"
  by simp

text \<open>
  C3. For a list of names \<^verbatim>\<open>get_data\<close> is meant to return one result per name. The code
  never gets there: for every element and every list of names, the empty one included,
  the call ends in \<^verbatim>\<open>NameError\<close>.
\<close>

theorem get_data_list_raises_NameError:
  "get_data pm (Names ns) = Inl NameError"
  by simp

subsection \<open>Polygons with holes\<close>

lemma subtract_holes_eq:
  "map (\<lambda>ibi. coords_from_tag pyfloat (child_named ''coordinates'' ibi) 2) ibis = map Inr inners \<Longrightarrow>
   subtract_holes sx pyfloat scale ibis covered =
     Inr (covered - (\<Union>h\<in>set inners.
        get_cells_2d sx (Path h) scale (Some (get_cells_1d sx (Path h) scale None))
          - get_cells_1d sx (Path h) scale None))"
proof (induction ibis arbitrary: inners covered)
  case Nil
  then show ?case by simp
next
  case (Cons ibi rest)
  then obtain h hs where inners: "inners = h # hs"
    and h: "coords_from_tag pyfloat (child_named ''coordinates'' ibi) 2 = Inr h"
    and hs: "map (\<lambda>ibi. coords_from_tag pyfloat (child_named ''coordinates'' ibi) 2) rest = map Inr hs"
    by (cases inners) auto
  show ?case
    unfolding inners
    by (simp add: h cells_def Cons.IH[OF hs] Diff_eq Int_assoc)
qed

lemma sample_outer_boundary:
  "child_named ''outerBoundaryIs'' sample_polygon = Some (ring ''outerBoundaryIs'' ''0,0 9,0 9,9 0,0'')"
  by (simp add: child_named_def find_tag_def sample_polygon_def ring_def named_def)

lemma sample_outer_coords:
  "coords_from_tag digit_float
     (child_named ''coordinates'' (ring ''outerBoundaryIs'' ''0,0 9,0 9,9 0,0'')) 2
   = Inr [[0, 0], [9, 0], [9, 9], [0, 0]]"
  by (simp add: child_named_def find_tag_def ring_def named_def coords_from_tag_def
      py_strip_def py_space_def py_split_def digit_float_def)

lemma sample_inner_boundaries:
  "find_all (named ''innerBoundaryIs'') sample_polygon = [ring ''innerBoundaryIs'' '' 3,3 5,3 5,5 3,3 '']"
  by (simp add: find_all_def sample_polygon_def ring_def named_def)

lemma sample_inner_coords:
  "coords_from_tag digit_float
     (child_named ''coordinates'' (ring ''innerBoundaryIs'' '' 3,3 5,3 5,5 3,3 '')) 2
   = Inr [[3, 3], [5, 3], [5, 5], [3, 3]]"
  by (simp add: child_named_def find_tag_def ring_def named_def coords_from_tag_def
      py_strip_def py_space_def py_split_def digit_float_def)

text \<open>
  C7. When the boundaries of a polygon parse, \<^verbatim>\<open>_spdx_pg\<close> returns the 2-dimensional
  fill of the outer boundary minus, for every inner boundary on its own, the cells of
  that hole's fill that are not on that hole's rim. So a cell of the outer fill is
  dropped exactly when it lies in the fill of some hole and off the rim of that same
  hole: no hole removes a cell of its own rim, but a cell on the rim of one hole is
  removed when it lies in the fill of another hole and off that one's rim.
\<close>

theorem spdx_pg_removes_hole_interiors:
  assumes "child_named ''outerBoundaryIs'' pg = Some obi"
    and "coords_from_tag pyfloat (child_named ''coordinates'' obi) 2 = Inr outer"
    and "map (\<lambda>ibi. coords_from_tag pyfloat (child_named ''coordinates'' ibi) 2)
           (find_all (named ''innerBoundaryIs'') pg) = map Inr inners"
  shows "spdx_pg sx pyfloat pg scale =
           Inr (get_cells_2d sx (Path outer) scale None
                - (\<Union>h\<in>set inners.
                     get_cells_2d sx (Path h) scale (Some (get_cells_1d sx (Path h) scale None))
                     - get_cells_1d sx (Path h) scale None))
         \<and> (\<forall>covering c. spdx_pg sx pyfloat pg scale = Inr covering \<longrightarrow>
               (c \<in> covering \<longleftrightarrow>
                  c \<in> get_cells_2d sx (Path outer) scale None \<and>
                  list_all (\<lambda>h. c \<in> get_cells_2d sx (Path h) scale
                                   (Some (get_cells_1d sx (Path h) scale None))
                               \<longrightarrow> c \<in> get_cells_1d sx (Path h) scale None) inners))"
proof -
  have eq: "spdx_pg sx pyfloat pg scale =
           Inr (get_cells_2d sx (Path outer) scale None
                - (\<Union>h\<in>set inners.
                     get_cells_2d sx (Path h) scale (Some (get_cells_1d sx (Path h) scale None))
                     - get_cells_1d sx (Path h) scale None))"
    by (simp add: spdx_pg_def assms(1,2) cells_def subtract_holes_eq[OF assms(3)])
  show ?thesis
    unfolding eq by (auto simp: list_all_iff)
qed

theorem spdx_pg_removes_hole_interiors_witness:
  "child_named ''outerBoundaryIs'' sample_polygon
     = Some (ring ''outerBoundaryIs'' ''0,0 9,0 9,9 0,0'')
   \<and> find_all (named ''innerBoundaryIs'') sample_polygon
     = [ring ''innerBoundaryIs'' '' 3,3 5,3 5,5 3,3 '']
   \<and> spdx_pg sample_sx digit_float sample_polygon 16 = Inr {0, 1, 3}"
proof -
  have inners: "map (\<lambda>ibi. coords_from_tag digit_float (child_named ''coordinates'' ibi) 2)
           (find_all (named ''innerBoundaryIs'') sample_polygon)
        = map Inr [[[3, 3], [5, 3], [5, 5], [3, 3]]]"
    by (simp add: sample_inner_boundaries sample_inner_coords)
  have "spdx_pg sample_sx digit_float sample_polygon 16 = Inr {0, 1, 3}"
    using spdx_pg_removes_hole_interiors[OF sample_outer_boundary sample_outer_coords inners,
        of sample_sx 16]
    by (auto simp: sample_sx_def)
  then show ?thesis
    by (simp add: sample_outer_boundary sample_inner_boundaries)
qed

text \<open>
  Two holes that overlap: cell 1 is in the fill of the outer boundary and on the rim of
  the first hole, and the second hole, which has it in its fill and not on its rim,
  removes it.
\<close>

theorem spdx_pg_overlapping_hole_removes_rim_cell:
  "spdx_pg overlap_sx digit_float overlapping_polygon 16 = Inr {0, 3}
   \<and> 1 \<in> get_cells_2d overlap_sx (Path [[0, 0], [9, 0], [9, 9], [0, 0]]) 16 None
   \<and> 1 \<in> get_cells_1d overlap_sx (Path [[3, 3], [5, 3], [5, 5], [3, 3]]) 16 None"
proof -
  have o: "child_named ''outerBoundaryIs'' overlapping_polygon
      = Some (ring ''outerBoundaryIs'' ''0,0 9,0 9,9 0,0'')"
    by (simp add: child_named_def find_tag_def overlapping_polygon_def ring_def named_def)
  have i: "find_all (named ''innerBoundaryIs'') overlapping_polygon
      = [ring ''innerBoundaryIs'' ''3,3 5,3 5,5 3,3'', ring ''innerBoundaryIs'' ''4,4 6,4 6,6 4,4'']"
    by (simp add: find_all_def overlapping_polygon_def ring_def named_def)
  have c1: "coords_from_tag digit_float
     (child_named ''coordinates'' (ring ''innerBoundaryIs'' ''3,3 5,3 5,5 3,3'')) 2
     = Inr [[3, 3], [5, 3], [5, 5], [3, 3]]"
    by (simp add: child_named_def find_tag_def ring_def named_def coords_from_tag_def
      py_strip_def py_space_def py_split_def digit_float_def)
  have c2: "coords_from_tag digit_float
     (child_named ''coordinates'' (ring ''innerBoundaryIs'' ''4,4 6,4 6,6 4,4'')) 2
     = Inr [[4, 4], [6, 4], [6, 6], [4, 4]]"
    by (simp add: child_named_def find_tag_def ring_def named_def coords_from_tag_def
      py_strip_def py_space_def py_split_def digit_float_def)
  have "spdx_pg overlap_sx digit_float overlapping_polygon 16 = Inr {0, 3}"
    by (auto simp: spdx_pg_def o sample_outer_coords i c1 c2 cells_def overlap_sx_def)
  then show ?thesis by (simp add: overlap_sx_def)
qed

subsection \<open>Placemarks without a geometry\<close>

lemma find_tag_None_iff: "find_tag P n = None \<longleftrightarrow> find_all P n = []"
  by (auto simp: find_tag_def find_all_def find_None_iff filter_empty_conv)

lemma first_geometry_None_iff:
  "first_geometry nms pm = None \<longleftrightarrow> find_all (\<lambda>t. node_name t \<in> set nms) pm = []"
proof (induction nms)
  case Nil
  then show ?case by (simp add: find_all_def)
next
  case (Cons nm nms)
  have "first_geometry (nm # nms) pm = None \<longleftrightarrow>
        find_all (named nm) pm = [] \<and> find_all (\<lambda>t. node_name t \<in> set nms) pm = []"
    using Cons.IH by (simp add: find_tag_None_iff[symmetric] split: option.splits)
  also have "\<dots> \<longleftrightarrow> find_all (\<lambda>t. node_name t \<in> set (nm # nms)) pm = []"
    by (auto simp: find_all_def filter_empty_conv named_def)
  finally show ?case .
qed

lemma index_placemarks_raises:
  "spatial_index_pm sx pyfloat bad scale = Inl e \<Longrightarrow>
   isl (index_placemarks sx pyfloat scale i (pre @ bad # post) index)"
  by (induction pre arbitrary: i index) (auto split: sum.splits)

lemma index_placemarks_first_error:
  "list_all (\<lambda>pm. \<not> isl (spatial_index_pm sx pyfloat pm scale)) pre \<Longrightarrow>
   spatial_index_pm sx pyfloat bad scale = Inl e \<Longrightarrow>
   index_placemarks sx pyfloat scale i (pre @ bad # post) index = Inl e"
  by (induction pre arbitrary: i index) (auto split: sum.splits)

text \<open>
  C8. When some placemark of the document has no \<^verbatim>\<open>Point\<close>, \<^verbatim>\<open>LineString\<close>,
  \<^verbatim>\<open>Polygon\<close> or \<^verbatim>\<open>MultiGeometry\<close> below it, \<^verbatim>\<open>spatial_index\<close> raises and returns
  no index, whatever it had collected; and when the placemarks before that one are
  indexed without an error, so that the loop reaches it, what it raises there is the
  \<^verbatim>\<open>ValueError\<close> of \<^verbatim>\<open>_spatial_index\<close>.
\<close>

theorem spatial_index_aborts_without_geometry:
  assumes "find_all (named ''Placemark'') soup = pre @ bad # post"
    and "find_all (\<lambda>t. node_name t \<in> set geometry_names) bad = []"
  shows "isl (spatial_index sx pyfloat soup scale) \<and>
         (list_all (\<lambda>pm. \<not> isl (spatial_index_pm sx pyfloat pm scale)) pre \<longrightarrow>
            spatial_index sx pyfloat soup scale = Inl ValueError)"
proof -
  from assms(2) have "first_geometry geometry_names bad = None"
    by (simp add: first_geometry_None_iff)
  then have bad: "spatial_index_pm sx pyfloat bad scale = Inl ValueError"
    by (simp add: spatial_index_pm_def)
  show ?thesis
    unfolding spatial_index_def assms(1)
    using index_placemarks_raises[OF bad] index_placemarks_first_error[OF _ bad]
    by blast
qed

lemma sample_placemarks:
  "find_all (named ''Placemark'') sample_soup = [point_placemark] @ bare_placemark # []"
  by (simp add: find_all_def sample_soup_def point_placemark_def bare_placemark_def named_def)

lemma bare_placemark_no_geometry:
  "find_all (\<lambda>t. node_name t \<in> set geometry_names) bare_placemark = []"
  by (simp add: find_all_def bare_placemark_def geometry_names_def)

lemma point_placemark_cells:
  "spatial_index_pm sample_sx digit_float point_placemark 16 = Inr {0}"
  by (simp add: spatial_index_pm_def geometry_names_def point_placemark_def find_tag_def
      named_def tag_to_function.simps spdx_pt_def child_named_def coords_from_tag_def
      py_strip_def py_space_def py_split_def digit_float_def cells_def sample_sx_def)

theorem spatial_index_aborts_without_geometry_witness:
  "find_all (named ''Placemark'') sample_soup = [point_placemark] @ bare_placemark # []
   \<and> find_all (\<lambda>t. node_name t \<in> set geometry_names) bare_placemark = []
   \<and> list_all (\<lambda>pm. \<not> isl (spatial_index_pm sample_sx digit_float pm 16)) [point_placemark]
   \<and> spatial_index sample_sx digit_float sample_soup 16
       = (Inl ValueError :: py_error + (nat \<rightharpoonup> nat set))"
  using spatial_index_aborts_without_geometry[OF sample_placemarks bare_placemark_no_geometry,
      of sample_sx digit_float 16]
  by (simp add: sample_placemarks bare_placemark_no_geometry point_placemark_cells)

subsection \<open>Index statistics\<close>

lemma py_min_Min: "xs \<noteq> [] \<Longrightarrow> py_min xs = Min (set xs)"
proof (cases xs)
  case (Cons x ys)
  then show ?thesis using Min.set_eq_fold[of x ys] by (simp add: py_min_def)
qed simp

lemma py_max_Max: "xs \<noteq> [] \<Longrightarrow> py_max xs = Max (set xs)"
proof (cases xs)
  case (Cons x ys)
  then show ?thesis using Max.set_eq_fold[of x ys] by (simp add: py_max_def)
qed simp

lemma slice_two: "Suc lo < length xs \<Longrightarrow> py_slice xs lo (Suc (Suc lo)) = [xs ! lo, xs ! Suc lo]"
proof -
  assume a: "Suc lo < length xs"
  have "take 2 (drop lo xs) = [drop lo xs ! 0, drop lo xs ! 1]"
    using a by (cases "drop lo xs"; cases "tl (drop lo xs)") (auto simp: drop_Suc[symmetric] dest!: arg_cong[where f=length])
  then show ?thesis using a by (simp add: py_slice_def)
qed


lemma median_even:
  fixes s :: "int list"
  assumes "sorted s" "Suc lo < length s"
  shows "(if length (remdups (py_slice s lo (Suc (Suc lo)))) = 1
          then Single (hd (remdups (py_slice s lo (Suc (Suc lo)))))
          else Both (sort (remdups (py_slice s lo (Suc (Suc lo))))))
         = (if s ! lo = s ! Suc lo then Single (s ! Suc lo) else Both [s ! lo, s ! Suc lo])"
proof -
  have le: "s ! lo \<le> s ! Suc lo"
    using assms by (simp add: sorted_nth_mono)
  show ?thesis
    unfolding slice_two[OF assms(2)] using le by simp
qed

lemma median_of_eq:
  assumes "stats \<noteq> []"
  shows "median_of stats =
     (if odd (length stats) then Single (sort stats ! (length stats div 2))
      else if sort stats ! (length stats div 2 - 1) = sort stats ! (length stats div 2)
        then Single (sort stats ! (length stats div 2))
        else Both [sort stats ! (length stats div 2 - 1), sort stats ! (length stats div 2)])"
    (is "_ = ?rhs")
proof (cases "odd (length stats)")
  case True
  then have "(length stats - 1) mod 2 = 0" "(length stats - 1) div 2 = length stats div 2"
    by (auto elim!: oddE)
  with True show ?thesis by (simp add: median_of_def)
next
  case False
  with assms obtain j where j: "length stats = 2 * Suc j"
    by (cases "length stats div 2") (auto elim!: evenE)
  have a: "(length stats - 1) mod 2 = 1" "(length stats - 1) div 2 = j"
    "length stats div 2 = Suc j"
    unfolding j by simp_all
  have lt: "Suc j < length (sort stats)"
    using j by simp
  have "median_of stats =
         (if length (remdups (py_slice (sort stats) j (Suc (Suc j)))) = 1
          then Single (hd (remdups (py_slice (sort stats) j (Suc (Suc j)))))
          else Both (sort (remdups (py_slice (sort stats) j (Suc (Suc j))))))"
    using a by (simp add: median_of_def Let_def)
  also have "\<dots> = (if sort stats ! j = sort stats ! Suc j then Single (sort stats ! Suc j)
          else Both [sort stats ! j, sort stats ! Suc j])"
    by (rule median_even[OF sorted_sort lt])
  also have "\<dots> = ?rhs"
    using False a by simp
  finally show ?thesis .
qed

text \<open>
  C9. For a non-empty index \<^verbatim>\<open>spatial_index_stats\<close> returns the mean of the per-cell
  counts, their population standard deviation (the sum of squared deviations divided
  by the number of cells), their minimum, maximum and range, and as median the middle
  value of the sorted counts when their number is odd; when it is even, the two middle
  values as one number if they are equal and as the ordered list of both otherwise.
\<close>

theorem spatial_index_stats_values:
  fixes index :: "('c \<times> nat set) list"
  assumes "index \<noteq> []"
  defines "stats \<equiv> map (\<lambda>(cell, v). int (card v)) index"
  defines "n \<equiv> length index"
  defines "mean \<equiv> real_of_int (sum_list stats) / real n"
  shows "\<exists>r. spatial_index_stats index = Inr r
           \<and> st_avg r = mean
           \<and> st_stdev r = sqrt ((\<Sum>x\<leftarrow>stats. (real_of_int x - mean)\<^sup>2) / real n)
           \<and> st_min r = Min (set stats)
           \<and> st_max r = Max (set stats)
           \<and> st_range r = Max (set stats) - Min (set stats)
           \<and> st_median r =
               (if odd n then Single (sort stats ! (n div 2))
                else if sort stats ! (n div 2 - 1) = sort stats ! (n div 2)
                  then Single (sort stats ! (n div 2))
                  else Both [sort stats ! (n div 2 - 1), sort stats ! (n div 2)])"
proof -
  have ne: "stats \<noteq> []" and len: "length stats = n"
    using assms(1) by (simp_all add: stats_def n_def)
  have "spatial_index_stats index =
      Inr \<lparr> st_avg = mean,
            st_stdev = sqrt ((\<Sum>x\<leftarrow>stats. (real_of_int x - mean)\<^sup>2) / real n),
            st_median = median_of stats, st_min = py_min stats, st_max = py_max stats,
            st_range = py_max stats - py_min stats, st_data = stats \<rparr>"
    using ne len by (simp add: spatial_index_stats_def Let_def mean_def flip: stats_def)
  then show ?thesis
    using median_of_eq[OF ne] py_min_Min[OF ne] py_max_Max[OF ne] by (simp add: len)
qed

theorem spatial_index_stats_values_witness:
  "sample_index \<noteq> [] \<and>
   (\<exists>r. spatial_index_stats sample_index = Inr r
      \<and> st_avg r = 7 / 4 \<and> st_min r = 1 \<and> st_max r = 3 \<and> st_range r = 2
      \<and> st_median r = Both [1, 2])"
  using spatial_index_stats_values[of sample_index]
  by (auto simp: sample_index_def)

subsection \<open>Normalization\<close>

lemma strip_prefix: "\<exists>v. dropWhile P s' = rev (dropWhile P (rev (dropWhile P s'))) @ v"
proof -
  have "rev (dropWhile P s') = takeWhile P (rev (dropWhile P s')) @ dropWhile P (rev (dropWhile P s'))"
    by simp
  then have "dropWhile P s' = rev (dropWhile P (rev (dropWhile P s'))) @ rev (takeWhile P (rev (dropWhile P s')))"
    by (metis rev_append rev_rev_ident)
  then show ?thesis by blast
qed

lemma strip_no_leading: "dropWhile py_space (py_strip s) = py_strip s"
proof (cases "py_strip s = []")
  case True
  then show ?thesis by simp
next
  case False
  obtain v where v: "dropWhile py_space s = py_strip s @ v"
    using strip_prefix[of py_space s] by (auto simp: py_strip_def)
  with False have "hd (py_strip s) = hd (dropWhile py_space s)" by simp
  moreover have "dropWhile py_space s \<noteq> []" using v False by auto
  ultimately have "\<not> py_space (hd (py_strip s))"
    using hd_dropWhile[of py_space s] by simp
  with False show ?thesis by (cases "py_strip s") auto
qed

lemma strip_no_trailing: "dropWhile py_space (rev (py_strip s)) = rev (py_strip s)"
proof -
  have "dropWhile py_space (dropWhile py_space xs) = dropWhile py_space xs" for xs
    by (metis dropWhile_eq_Nil_conv dropWhile_idem hd_dropWhile dropWhile_eq_self_iff)
  then show ?thesis by (simp add: py_strip_def)
qed

lemma py_strip_idem: "py_strip (py_strip s) = py_strip s"
  unfolding py_strip_def[of "py_strip s"] by (simp add: strip_no_leading strip_no_trailing)

lemma py_strip_not_isspace: "\<not> py_isspace (py_strip s)"
proof (cases "py_strip s")
  case Nil
  then show ?thesis by (simp add: py_isspace_def)
next
  case (Cons c cs)
  with strip_no_leading[of s] length_dropWhile_le[of py_space cs] have "\<not> py_space c"
    by (auto split: if_splits)
  with Cons show ?thesis by (simp add: py_isspace_def)
qed


lemma trimmed_descendants:
  "trimmed n \<longleftrightarrow> text_trimmed n \<and> list_all text_trimmed (descendants n)"
  by (induction n) (auto simp: list_all_iff)


lemma trimmed_apply_recorded: "list_all trimmed (apply_recorded n)"
  by (induction n) (auto simp: list_all_iff py_strip_idem py_strip_not_isspace)

lemma trimmed_remove_empty: "trimmed n \<Longrightarrow> trimmed (remove_empty n)"
  by (induction n) (auto simp: list_all_iff)

text \<open>
  When the walk reaches every node (\<^verbatim>\<open>bs4\<close> up to 4.12), after \<^verbatim>\<open>format\<close>, with or
  without \<^verbatim>\<open>no_empty\<close>, no string of the tree is all whitespace and none has leading
  or trailing whitespace. (A string may be empty: a whitespace-only string that was
  the only child of a tag is replaced by its stripped, empty text.)
\<close>

theorem format_leaves_text_trimmed:
  "list_all text_trimmed (descendants (format soup no_empty))"
proof (cases soup)
  case (Str k s)
  then show ?thesis by (simp add: format_def)
next
  case (Tag pf nm ats cs)
  define applied where "applied = Tag pf nm ats (concat (map apply_recorded (map edit_tags cs)))"
  have applied: "trimmed applied"
    unfolding applied_def using trimmed_apply_recorded by (auto simp: list_all_iff)
  have "format soup no_empty = (if no_empty then remove_empty applied else applied)"
    by (simp add: Tag format_def Let_def applied_def)
  with applied have "trimmed (format soup no_empty)"
    by (simp add: trimmed_remove_empty)
  then show ?thesis by (simp add: trimmed_descendants)
qed






































text \<open>
  Where no tag has a non-empty string as its only child the first loop replaces
  nothing, so the walk of \<^verbatim>\<open>bs4\<close> 4.13 reaches every node as well, and
  \<^verbatim>\<open>format\<close> does the same under either release.
\<close>

lemma walk_full:
  "no_only_text n \<Longrightarrow> walk_node n = (apply_recorded (edit_tags n), Walking)"
  and walk_nodes_full:
  "list_all no_only_text cs \<Longrightarrow>
     walk_nodes cs = (concat (map (\<lambda>c. apply_recorded (edit_tags c)) cs), Walking)"
proof (induction n and cs rule: walk_node_walk_nodes.induct)
  case (1 k s)
  then show ?case by simp
next
  case (2 pf nm ats cs)
  show ?case
  proof (cases "sole_string cs")
    case None
    with 2 show ?thesis by (simp add: comp_def)
  next
    case (Some s)
    with "2.prems" have s: "s = []" by simp
    from Some obtain k where cs: "cs = [Str k s]"
      by (induction cs rule: sole_string.induct) auto
    show ?thesis
      using "2.IH"(2)[OF refl Some] "2.prems" Some s by (simp add: cs)
  qed
next
  case 3
  then show ?case by simp
next
  case (4 c cs)
  then show ?case by simp
qed

lemma format_short_walk_full:
  assumes "list_all no_only_text (node_contents soup)"
  shows "format_short_walk soup no_empty = Inr (format soup no_empty)"
proof (cases soup)
  case (Str k s)
  then show ?thesis by (simp add: format_short_walk_def format_def)
next
  case (Tag pf nm ats cs)
  with assms have "list_all no_only_text cs" by simp
  from walk_nodes_full[OF this] show ?thesis
    by (simp add: Tag format_short_walk_def format_def Let_def comp_def)
qed

text \<open>
  The two trees on which \<^verbatim>\<open>format\<close> is not idempotent come out the same under the
  walk of \<^verbatim>\<open>bs4\<close> 4.13, in the first call and in the second.
\<close>

lemma short_walk_agrees_on_failing_trees:
  "format_short_walk nested_empty_soup True = Inr (format nested_empty_soup True)
   \<and> format_short_walk (format nested_empty_soup True) True
       = Inr (format (format nested_empty_soup True) True)
   \<and> format_short_walk comment_then_text_soup False
       = Inr (format comment_then_text_soup False)
   \<and> format_short_walk (format comment_then_text_soup False) False
       = Inr (format (format comment_then_text_soup False) False)"
  by code_simp

text \<open>
  C6. With \<^verbatim>\<open>bs4\<close> 4.13 or later the first loop ends at the first tag whose only
  child is a non-empty string, and the strings after it are never recorded: in a
  document with a \<^verbatim>\<open>name\<close> and after it a line break and a \<^verbatim>\<open>description\<close> of
  padded text, \<^verbatim>\<open>format\<close> returns the document as it was, the whitespace-only string
  and the padded one still in it. With the walk that reaches every node the result
  has neither.
\<close>

theorem format_short_walk_leaves_padded_text:
  "format_short_walk name_and_description False = Inr name_and_description
   \<and> Str Plain [CHR 0x0A] \<in> set (descendants name_and_description)
   \<and> py_isspace [CHR 0x0A]
   \<and> Str Plain '' y '' \<in> set (descendants name_and_description)
   \<and> py_strip '' y '' \<noteq> '' y ''
   \<and> \<not> list_all text_trimmed (descendants name_and_description)
   \<and> list_all text_trimmed (descendants (format name_and_description False))"
  by code_simp

text \<open>
  Under the same walk a second call can raise where the first returned: the first
  call leaves an empty string in \<^verbatim>\<open>name\<close>, the second walks past it, replaces the
  padded text of \<^verbatim>\<open>description\<close> and then fails to replace the string it has cut
  out.
\<close>

lemma format_short_walk_second_call_raises:
  "format_short_walk space_then_padded_soup False
     = Inr (Tag None ''[document]'' []
         [Tag None ''kml'' []
            [Tag None ''name'' [] [Str Plain ''''],
             Tag None ''description'' [] [Str Plain '' y '']]])
   \<and> format_short_walk (Tag None ''[document]'' []
         [Tag None ''kml'' []
            [Tag None ''name'' [] [Str Plain ''''],
             Tag None ''description'' [] [Str Plain '' y '']]]) False = Inl ValueError"
  by code_simp

text \<open>
  C4. The test \<^verbatim>\<open>len(str(cdata)) <= len(_as_html(e.string))\<close> compares the bare text
  with its escaped form, which is never shorter, so every only-child text with one of
  the three characters becomes a \<^verbatim>\<open>CData\<close>; for \<^verbatim>\<open>a<b\<close> the lengths compared are 3
  and 10, the ampersand of \<^verbatim>\<open>&lt;\<close> being escaped again by the last replacement.
\<close>

theorem format_wraps_short_text_in_cdata:
  "py_str ''a<b'' = ''a<b'' \<and> as_html ''a<b'' = ''a&amp;lt;b'' \<and>
   format description_soup False
     = Tag None ''[document]'' [] [Tag None ''description'' [] [Str CData ''a<b'']]"
  by (simp add: format_def description_soup_def py_isspace_def py_space_def py_strip_def
      set_string_def REPLACE_def py_str_def as_html_def py_replace_def)

text \<open>The walk of \<^verbatim>\<open>bs4\<close> 4.13 gives the same on this document.\<close>

lemma format_short_walk_description:
  "format_short_walk description_soup False = Inr (format description_soup False)"
  by code_simp

subsection \<open>Applying a coloring\<close>

lemma get_at_append:
  "get_at t (p @ q) = (case get_at t p of None \<Rightarrow> None | Some n \<Rightarrow> get_at n q)"
  by (induction t p rule: get_at.induct) simp_all

lemma update_at_append:
  "update_at t (p @ q) f = update_at t p (\<lambda>n. update_at n q f)"
  by (induction t p f rule: update_at.induct) simp_all

lemma get_at_update_at:
  "get_at t p = Some n \<Longrightarrow> get_at (update_at t p f) p = Some (f n)"
  by (induction t p arbitrary: n rule: get_at.induct) (auto split: if_splits)

lemma update_at_twice:
  "update_at (update_at t p f) p g = update_at t p (\<lambda>n. g (f n))"
  by (induction t p f rule: update_at.induct) simp_all

lemma update_at_cong_at:
  "get_at t p = Some n \<Longrightarrow> f n = g n \<Longrightarrow> update_at t p f = update_at t p g"
  by (induction t p arbitrary: n rule: get_at.induct) (auto split: if_splits)



lemma update_at_id: "update_at t p (\<lambda>x. x) = t"
  by (induction t p "\<lambda>x::node. x" rule: update_at.induct) simp_all

lemma update_at_const:
  "get_at t p = Some n \<Longrightarrow> update_at t p f = update_at t p (\<lambda>_. f n)"
  by (rule update_at_cong_at) simp_all

lemma update_at_below:
  assumes "get_at t p = Some n"
  shows "update_at t (p @ q) f = update_at t p (\<lambda>_. update_at n q f)"
  unfolding update_at_append by (rule update_at_const[OF assms])

lemma add_Name_local:
  assumes "get_at t p = Some n"
  shows "add t (p @ q) (Name nm) =
     map_option (\<lambda>(n', q'). (update_at t p (\<lambda>_. n'), p @ q')) (add n q (Name nm))"
proof -
  have g: "get_at t (p @ q) = get_at n q"
    by (simp add: get_at_append assms)
  show ?thesis
  proof (cases "get_at n q")
    case None
    then show ?thesis by (simp add: g)
  next
    case (Some m)
    then show ?thesis
      by (cases m) (simp_all add: g update_at_below[OF assms])
  qed
qed

lemma add_local:
  "get_at t p = Some n \<Longrightarrow>
   add t (p @ q) nm =
     map_option (\<lambda>(n', q'). (update_at t p (\<lambda>_. n'), p @ q')) (add n q nm)"
  and add_each_local:
  "get_at t p = Some n \<Longrightarrow>
   add_each t (p @ q) nms =
     map_option (\<lambda>(n', q'). (update_at t p (\<lambda>_. n'), p @ q')) (add_each n q nms)"
proof (induction n q nm and n q nms arbitrary: t and t rule: add_add_each.induct)
  case (1 doc tag ns)
  then show ?case by simp
next
  case (2 doc tag nm)
  then show ?case by (rule add_Name_local)
next
  case (3 doc pointer)
  have "update_at t p (\<lambda>_. doc) = t"
    using update_at_const[OF "3.prems", of "\<lambda>x. x"] by (simp add: update_at_id)
  then show ?case by simp
next
  case (4 doc pointer n ns)
  show ?case
  proof (cases "add doc pointer n")
    case None
    with "4.IH"(1)[OF "4.prems"] show ?thesis by simp
  next
    case (Some r)
    obtain doc' pointer' where r: "r = (doc', pointer')" by (cases r)
    have step: "add t (p @ pointer) n = Some (update_at t p (\<lambda>_. doc'), p @ pointer')"
      using "4.IH"(1)[OF "4.prems"] Some r by simp
    have at: "get_at (update_at t p (\<lambda>_. doc')) p = Some doc'"
      using get_at_update_at[OF "4.prems"] by simp
    have rest: "add_each (update_at t p (\<lambda>_. doc')) (p @ pointer') ns =
      map_option (\<lambda>(n', q'). (update_at (update_at t p (\<lambda>_. doc')) p (\<lambda>_. n'), p @ q'))
        (add_each doc' pointer' ns)"
      using "4.IH"(2)[OF Some[unfolded r] refl at] .
    show ?thesis
      by (simp add: step rest Some r update_at_twice)
  qed
qed


lemma add_string_local:
  assumes "get_at t p = Some n"
  shows "add_string t (p @ q) nm text =
     map_sum id (\<lambda>n'. update_at t p (\<lambda>_. n')) (add_string n q nm text)"
proof (cases "add n q nm")
  case None
  then show ?thesis by (simp add: add_string_def add_local[OF assms])
next
  case (Some r)
  obtain n' q' where r: "r = (n', q')" by (cases r)
  have at: "get_at (update_at t p (\<lambda>_. n')) p = Some n'"
    using get_at_update_at[OF assms] by simp
  show ?thesis
    by (simp add: add_string_def add_local[OF assms] Some r update_at_below[OF at]
        update_at_twice)
qed

lemma shift_eq_Nil: "shift r = [] \<longleftrightarrow> r = []"
  by (cases r) auto

lemma find_path_in_nonempty: "find_path_in P cs = Some r \<Longrightarrow> r \<noteq> []"
  by (induction cs arbitrary: r) (auto split: if_splits option.splits simp: shift_eq_Nil)

lemma shift_eq_Cons: "shift r = k # q \<longleftrightarrow> (\<exists>j. k = Suc j \<and> r = j # q)"
  by (cases r) auto

lemma find_path_tag:
  "find_path P t = Some d \<Longrightarrow> \<exists>n. get_at t d = Some n \<and> is_tag n \<and> P n"
  and find_path_in_tag:
  "find_path_in P cs = Some d \<Longrightarrow>
     \<exists>k q n. d = k # q \<and> k < length cs \<and> get_at (cs ! k) q = Some n \<and> is_tag n \<and> P n"
proof (induction P t and P cs arbitrary: d and d rule: find_path_find_path_in.induct)
  case (1 P uu uv)
  then show ?case by simp
next
  case (2 P pf nm ats cs)
  then show ?case by fastforce
next
  case (3 P)
  then show ?case by simp
next
  case (4 P c cs)
  show ?case
  proof (cases "is_tag c \<and> P c")
    case True
    with "4.prems" show ?thesis by auto
  next
    case False
    show ?thesis
    proof (cases "find_path P c")
      case (Some q)
      with False "4.prems" "4.IH"(1)[OF False Some] show ?thesis by auto
    next
      case None
      with False "4.prems" obtain r where r: "find_path_in P cs = Some r" "d = shift r"
        by auto
      from "4.IH"(2)[OF False None r(1)] r(2) show ?thesis by auto
    qed
  qed
qed


lemma find_path_nonempty: "find_path P t = Some r \<Longrightarrow> r \<noteq> []"
  by (cases t) (auto dest: find_path_in_nonempty)

lemma update_at_below_keeps:
  "q \<noteq> [] \<Longrightarrow> is_tag (update_at c q f) = is_tag c \<and> node_name (update_at c q f) = node_name c"
  by (cases q; cases c) simp_all

lemma find_path_update:
  "find_path (named nm) t = Some d \<Longrightarrow> is_tag n' \<Longrightarrow> named nm n' \<Longrightarrow>
     find_path (named nm) (update_at t d (\<lambda>_. n')) = Some d"
  and find_path_in_update:
  "find_path_in (named nm) cs = Some (k # q) \<Longrightarrow> is_tag n' \<Longrightarrow> named nm n' \<Longrightarrow>
     find_path_in (named nm) (cs[k := update_at (cs ! k) q (\<lambda>_. n')]) = Some (k # q)"
proof (induction "named nm" t and "named nm" cs arbitrary: d and k q
    rule: find_path_find_path_in.induct)
  case (1 uu uv)
  then show ?case by simp
next
  case (2 pf nm' ats cs)
  from "2.prems"(1) obtain k q where d: "d = k # q"
    using find_path_in_nonempty[of "named nm" cs d] by (cases d) auto
  from find_path_in_tag[of "named nm" cs d] "2.prems"(1) d have k: "k < length cs" by auto
  show ?case
    using "2.hyps"[of k q] "2.prems" d k by simp
next
  case 3
  then show ?case by simp
next
  case (4 c cs)
  show ?case
  proof (cases "is_tag c \<and> named nm c")
    case True
    with "4.prems" show ?thesis by auto
  next
    case False
    show ?thesis
    proof (cases "find_path (named nm) c")
      case (Some r)
      with False "4.prems" have kq: "k = 0" "q = r" by auto
      have r: "r \<noteq> []" using Some by (rule find_path_nonempty)
      have keep: "\<not> (is_tag (update_at c r (\<lambda>_. n')) \<and> named nm (update_at c r (\<lambda>_. n')))"
        using False update_at_below_keeps[OF r, of c] by (simp add: named_def)
      have "find_path (named nm) (update_at c r (\<lambda>_. n')) = Some r"
        using "4.hyps"(1)[OF False Some "4.prems"(2,3)] .
      with keep show ?thesis by (auto simp: kq)
    next
      case None
      with False "4.prems"(1) obtain z where z: "find_path_in (named nm) cs = Some z"
        "shift z = k # q" by auto
      then obtain j where j: "k = Suc j" "z = j # q" by (auto simp: shift_eq_Cons)
      have "find_path_in (named nm) (cs[j := update_at (cs ! j) q (\<lambda>_. n')]) = Some (j # q)"
        using "4.hyps"(2)[OF False None _ "4.prems"(2,3)] z(1) j(2) by simp
      with False None show ?thesis by (simp add: j)
    qed
  qed
qed

lemma build_style:
  "add_string (Tag None ''Style'' [(''id'', i)] []) []
      (Names [Name ''PolyStyle'', Name ''color'']) fill = Inr s1 \<Longrightarrow>
   add_string s1 [] (Names [Name ''LineStyle'', Name ''color'']) ''7fcccccc'' = Inr s2 \<Longrightarrow>
   add_string s2 [] (Names [Name ''IconStyle'', Name ''Icon'', Name ''href'']) icon = Inr s3 \<Longrightarrow>
   s3 = style_element i fill icon"
  by (auto simp: add_string_def append_child_def new_tag_def assign_string_def
      style_element_def)

lemma add_string_total_root:
  "\<exists>s'. add_string (Tag pf nm ats cs) [] (Names [Name a, Name b]) text = Inr s'"
  "\<exists>s'. add_string (Tag pf nm ats cs) [] (Names [Name a, Name b, Name c]) text = Inr s'"
  by (auto simp: add_string_def append_child_def new_tag_def assign_string_def)

lemma new_style_step:
  assumes d: "find_path (named ''Document'') soup = Some d"
    and g: "get_at soup d = Some (Tag pf nm ats cs)"
    and r: "new_style soup i colorize icons = Inr soup'"
  shows "soup' = update_at soup d (\<lambda>_. Tag pf nm ats (style_of colorize icons i # cs))"
proof -
  define T where "T X = update_at soup d (\<lambda>_. Tag pf nm ats (X # cs))" for X
  have a: "get_at (T X) d = Some (Tag pf nm ats (X # cs))" for X
    unfolding T_def using get_at_update_at[OF g] by simp
  have b: "get_at (T X) (d @ [0]) = Some X" for X
    by (simp add: get_at_append a)
  have c: "update_at (T X) (d @ [0]) f = T (f X)" for X f
    unfolding update_at_below[OF a] by (simp add: T_def update_at_twice)
  have e: "add_string (T X) (d @ [0]) names str = map_sum id T (add_string X [] names str)"
    for X names str
    using add_string_local[OF b, of X "[]" names str] c[of X]
    by (cases "add_string X [] names str") simp_all
  have first: "update_at soup d (insert_child 0 (new_tag ''Style'')) = T (new_tag ''Style'')"
    unfolding T_def using update_at_const[OF g, of "insert_child 0 (new_tag ''Style'')"]
    by (simp add: insert_child_def)
  have attr: "set_attr ''id'' i (new_tag ''Style'') = Tag None ''Style'' [(''id'', i)] []"
    by (simp add: set_attr_def new_tag_def)
  from r have i: "i \<noteq> []"
    by (auto simp: new_style_def d Let_def split: if_splits)
  from r i obtain n where n: "int_of_char (last i) = Inr n"
    by (cases "int_of_char (last i)") (auto simp: new_style_def d Let_def)
  from r i n obtain fill where fill: "colorize n = Some fill"
    by (cases "colorize n") (auto simp: new_style_def d Let_def)
  obtain s1 where s1: "add_string (Tag None ''Style'' [(''id'', i)] []) []
      (Names [Name ''PolyStyle'', Name ''color'']) fill = Inr s1"
    using add_string_total_root(1) by blast
  have s1_tag: "\<exists>cs1. s1 = Tag None ''Style'' [(''id'', i)] cs1"
    using s1 by (auto simp: add_string_def append_child_def new_tag_def assign_string_def)
  then obtain s2 where s2: "add_string s1 [] (Names [Name ''LineStyle'', Name ''color''])
      ''7fcccccc'' = Inr s2"
    using add_string_total_root(1) by blast
  have s2_tag: "\<exists>cs2. s2 = Tag None ''Style'' [(''id'', i)] cs2"
    using s1_tag s2 by (auto simp: add_string_def append_child_def new_tag_def assign_string_def)
  have partial: "new_style soup i colorize icons =
      (case icons n of None \<Rightarrow> Inl KeyError
       | Some icon \<Rightarrow> map_sum id T (add_string s2 []
           (Names [Name ''IconStyle'', Name ''Icon'', Name ''href'']) icon))"
    unfolding new_style_def d
    by (simp add: Let_def first c attr i n fill e s1 s2 del: add.simps add_each.simps
        split: option.splits)
  with r obtain icon where icon: "icons n = Some icon"
    by (cases "icons n") auto
  from s2_tag obtain s3 where s3: "add_string s2 []
      (Names [Name ''IconStyle'', Name ''Icon'', Name ''href'']) icon = Inr s3"
    using add_string_total_root(2) by blast
  have "soup' = T s3"
    using r partial icon s3 by simp
  moreover have "s3 = style_of colorize icons i"
    using build_style[OF s1 s2 s3] by (simp add: style_of_def last_digit_def n fill icon)
  ultimately show ?thesis by (simp add: T_def)
qed

lemma add_styles_children:
  assumes "find_path (named ''Document'') soup = Some d"
    and "get_at soup d = Some (Tag pf nm ats cs)"
    and "add_styles soup ids colorize icons = Inr soup'"
  shows "get_at soup' d = Some (Tag pf nm ats (rev (map (style_of colorize icons) ids) @ cs))
         \<and> find_path (named ''Document'') soup' = Some d"
  using assms
proof (induction ids arbitrary: soup cs)
  case Nil
  then show ?case by simp
next
  case (Cons i rest)
  from Cons.prems(3) obtain soup1 where
    s1: "new_style soup i colorize icons = Inr soup1"
    and rest: "add_styles soup1 rest colorize icons = Inr soup'"
    by (cases "new_style soup i colorize icons") auto
  let ?doc = "Tag pf nm ats (style_of colorize icons i # cs)"
  have eq: "soup1 = update_at soup d (\<lambda>_. ?doc)"
    using new_style_step[OF Cons.prems(1,2) s1] .
  from find_path_tag(1)[OF Cons.prems(1)] Cons.prems(2) have nm: "nm = ''Document''"
    by (simp add: named_def)
  have d1: "find_path (named ''Document'') soup1 = Some d"
    unfolding eq by (rule find_path_update[OF Cons.prems(1)]) (simp_all add: named_def nm)
  have g1: "get_at soup1 d = Some ?doc"
    unfolding eq using get_at_update_at[OF Cons.prems(2)] by simp
  from Cons.IH[OF d1 g1 rest] show ?case by simp
qed

lemma str_le_refl: "str_le x x"
  by (induction x) simp_all

lemma str_le_total: "str_le x y \<or> str_le y x"
proof (induction x y rule: str_le.induct)
  case (3 x xs y ys)
  show ?case
  proof (cases "x = y")
    case True
    with 3 show ?thesis by auto
  next
    case False
    then have "(of_char x :: nat) \<noteq> of_char y" by simp
    then have "(of_char x :: nat) < of_char y \<or> (of_char y :: nat) < of_char x"
      by linarith
    then show ?thesis by auto
  qed
qed simp_all

lemma str_le_trans: "str_le x y \<Longrightarrow> str_le y z \<Longrightarrow> str_le x z"
proof (induction x y arbitrary: z rule: str_le.induct)
  case (1 ys)
  then show ?case by simp
next
  case (2 x xs)
  then show ?case by simp
next
  case (3 x xs y ys)
  then show ?case by (cases z) auto
qed

lemma set_insort_str: "set (insort_str x xs) = insert x (set xs)"
  by (induction xs) auto

lemma sorted_insort_str:
  "sorted_wrt str_le xs \<Longrightarrow> sorted_wrt str_le (insort_str x xs)"
proof (induction xs)
  case Nil
  then show ?case by simp
next
  case (Cons y ys)
  then show ?case
    using str_le_total[of x y] by (auto simp: set_insort_str intro: str_le_trans)
qed

lemma distinct_insort_str: "distinct (insort_str x xs) \<longleftrightarrow> x \<notin> set xs \<and> distinct xs"
  by (induction xs) (auto simp: set_insort_str)

lemma set_py_sorted: "set (py_sorted xs) = set xs"
  by (induction xs) (simp_all add: py_sorted_def set_insort_str)

lemma sorted_py_sorted: "sorted_wrt str_le (py_sorted xs)"
  by (induction xs) (simp_all add: py_sorted_def sorted_insort_str)

lemma distinct_py_sorted: "distinct (py_sorted xs) = distinct xs"
  using set_py_sorted[unfolded py_sorted_def]
  by (induction xs) (simp_all add: py_sorted_def distinct_insort_str)

lemma color_from_ids:
  "color_from original soup coloring i pms ids0 = Inr (soup1, ids) \<Longrightarrow>
   set ids = set ids0 \<union> {''color'' @ str_of_nat c | j c.
                i \<le> j \<and> j < i + length pms \<and> coloring j = Some c}
   \<and> (distinct ids0 \<longrightarrow> distinct ids)"
proof (induction pms arbitrary: soup i ids0)
  case Nil
  then show ?case by auto
next
  case (Cons pm pms)
  from Cons.prems obtain c where c: "coloring i = Some c"
    by (cases "coloring i") auto
  let ?ids1 = "set_add (''color'' @ str_of_nat c) ids0"
  from Cons.prems c obtain soup' where
    rest: "color_from original soup' coloring (Suc i) pms ?ids1 = Inr (soup1, ids)"
    by (cases "set_style_url original soup pm (''#color'' @ str_of_nat c)")
       (auto simp: Let_def)
  have split: "{''color'' @ str_of_nat c' | j c'. i \<le> j \<and> j < i + length (pm # pms) \<and> coloring j = Some c'}
     = insert (''color'' @ str_of_nat c) {''color'' @ str_of_nat c' | j c'.
          Suc i \<le> j \<and> j < Suc i + length pms \<and> coloring j = Some c'}"
    (is "?L = insert ?x ?R")
  proof
    show "?L \<subseteq> insert ?x ?R"
    proof
      fix x assume "x \<in> ?L"
      then obtain j c' where j: "x = ''color'' @ str_of_nat c'" "i \<le> j" "j < i + length (pm # pms)"
        "coloring j = Some c'" by blast
      show "x \<in> insert ?x ?R"
      proof (cases "j = i")
        case True
        with j c show ?thesis by simp
      next
        case False
        with j have "Suc i \<le> j" "j < Suc i + length pms" by simp_all
        with j show ?thesis by blast
      qed
    qed
    show "insert ?x ?R \<subseteq> ?L"
    proof
      fix x assume "x \<in> insert ?x ?R"
      then consider "x = ?x" | "x \<in> ?R" by blast
      then show "x \<in> ?L"
      proof cases
        case 1
        have "i \<le> i \<and> i < i + length (pm # pms) \<and> coloring i = Some c"
          using c by simp
        with 1 show ?thesis by blast
      next
        case 2
        then obtain j c' where "x = ''color'' @ str_of_nat c'" "Suc i \<le> j"
          "j < Suc i + length pms" "coloring j = Some c'" by blast
        then have "x = ''color'' @ str_of_nat c' \<and> i \<le> j \<and> j < i + length (pm # pms)
          \<and> coloring j = Some c'" by simp
        then show ?thesis by blast
      qed
    qed
  qed
  from Cons.IH[OF rest] show ?case
    unfolding split by (auto simp: set_add_def)
qed

lemma color_placemarks_ids:
  "color_placemarks soup coloring i pms ids0 = Inr (soup1, ids) \<Longrightarrow>
   set ids = set ids0 \<union> {''color'' @ str_of_nat c | j c.
                i \<le> j \<and> j < i + length pms \<and> coloring j = Some c}
   \<and> (distinct ids0 \<longrightarrow> distinct ids)"
  unfolding color_placemarks_def by (rule color_from_ids)

lemma find_app:
  "List.find Q (xs @ ys) = (case List.find Q xs of None \<Rightarrow> List.find Q ys | Some x \<Rightarrow> Some x)"
  by (induction xs) simp_all

lemma get_at_shift:
  "p \<noteq> [] \<Longrightarrow> get_at (Tag pf nm ats (c # cs)) (shift p) = get_at (Tag pf nm ats cs) p"
  by (cases p) simp_all

lemma find_tag_path:
  "find_tag P t = (case find_path P t of None \<Rightarrow> None | Some d \<Rightarrow> get_at t d)"
  and find_in_path:
  "List.find (\<lambda>d. is_tag d \<and> P d) (concat (map (\<lambda>c. c # descendants c) cs)) =
     (case find_path_in P cs of None \<Rightarrow> None | Some d \<Rightarrow> get_at (Tag pf nm ats cs) d)"
proof (induction P t and P cs arbitrary: and pf nm ats rule: find_path_find_path_in.induct)
  case (1 P uu uv)
  then show ?case by (simp add: find_tag_def)
next
  case (2 P pf' nm' ats' cs)
  from 2[of pf' nm' ats'] show ?case by (simp add: find_tag_def)
next
  case (3 P)
  then show ?case by simp
next
  case (4 P c cs)
  show ?case
  proof (cases "is_tag c \<and> P c")
    case True
    then show ?thesis by simp
  next
    case False
    note IH1 = "4.IH"(1)[OF False, unfolded find_tag_def]
    show ?thesis
    proof (cases "find_path P c")
      case (Some q)
      from find_path_tag(1)[OF Some] obtain n where "get_at c q = Some n" by blast
      with Some False IH1 show ?thesis by (auto simp: find_app)
    next
      case None
      note IH2 = "4.IH"(2)[OF False None, of pf nm ats]
      show ?thesis
      proof (cases "find_path_in P cs")
        case None': None
        with False None IH1 IH2 show ?thesis by (auto simp: find_app)
      next
        case (Some r)
        then have "r \<noteq> []" by (rule find_path_in_nonempty)
        with False None Some IH1 IH2 show ?thesis
          by (auto simp: find_app get_at_shift simp del: get_at.simps)
      qed
    qed
  qed
qed

lemma tag_paths_in_nonempty: "[] \<notin> set (tag_paths_in P cs)"
proof (induction cs)
  case Nil
  then show ?case by simp
next
  case (Cons c cs)
  have "shift x \<noteq> []" if "x \<in> set (tag_paths_in P cs)" for x
    using that Cons by (auto simp: shift_eq_Nil)
  then show ?case by (auto dest: sym)
qed

lemma tag_paths_find_all:
  "map (get_at t) (tag_paths P t) = map Some (find_all P t)"
  and tag_paths_in_find_all:
  "map (get_at (Tag pf nm ats cs)) (tag_paths_in P cs) =
     map Some (filter (\<lambda>d. is_tag d \<and> P d) (concat (map (\<lambda>c. c # descendants c) cs)))"
proof (induction P t and P cs arbitrary: and pf nm ats rule: tag_paths_tag_paths_in.induct)
  case (1 P uu uv)
  then show ?case by (simp add: find_all_def)
next
  case (2 P pf' nm' ats' cs)
  from 2[of pf' nm' ats'] show ?case by (simp add: find_all_def)
next
  case (3 P)
  then show ?case by simp
next
  case (4 P c cs)
  have sh: "map (get_at (Tag pf nm ats (c # cs))) (map shift (tag_paths_in P cs))
      = map (get_at (Tag pf nm ats cs)) (tag_paths_in P cs)"
  proof -
    have "get_at (Tag pf nm ats (c # cs)) (shift x) = get_at (Tag pf nm ats cs) x"
      if "x \<in> set (tag_paths_in P cs)" for x
      using that tag_paths_in_nonempty[of P cs] by (intro get_at_shift) auto
    then show ?thesis by simp
  qed
  have lo: "map (get_at (Tag pf nm ats (c # cs))) (map ((#) 0) (tag_paths P c))
      = map (get_at c) (tag_paths P c)"
    by simp
  show ?case
    using "4.IH"(1)[unfolded find_all_def] "4.IH"(2)[of pf nm ats]
    by (simp add: sh lo del: map_map)
qed

lemma length_tag_paths: "length (tag_paths P t) = length (find_all P t)"
  using arg_cong[OF tag_paths_find_all(1)[of t P], of length] by simp

text \<open>
  A placemark inside the \<^verbatim>\<open>styleUrl\<close> of another is cut out of the document when
  the outer one gets its url. With a \<^verbatim>\<open>styleUrl\<close> of its own it is edited where it
  is, outside the document, and the call goes on; without one the call ends in
  \<^verbatim>\<open>TypeError\<close>.
\<close>

lemma apply_color_placemark_cut_out:
  "apply_color (nested_placemarks []) [0 \<mapsto> 1, 1 \<mapsto> 2] sample_colorize sample_icons
     = Inl TypeError
   \<and> map_sum id snd (color_placemarks (nested_placemarks [Tag None ''styleUrl'' [] []])
         [0 \<mapsto> 1, 1 \<mapsto> 2] 0
         (tag_paths (named ''Placemark'') (nested_placemarks [Tag None ''styleUrl'' [] []])) [])
     = Inr [''color1'', ''color2'']"
  by code_simp

text \<open>
  C1. When \<^verbatim>\<open>apply_color\<close> succeeds, the ids it used are the strings
  \<^verbatim>\<open>color\<close>\<open>n\<close> of the colors of the placemarks, and the third loop goes through
  them in ascending order of the strings, compared character by character (so
  \<^verbatim>\<open>color10\<close> comes before \<^verbatim>\<open>color2\<close>), whatever the order of the placemarks. Each
  new \<^verbatim>\<open>Style\<close> is inserted as the first child of the first \<^verbatim>\<open>Document\<close> tag, which
  stays the same tag throughout: in the end its children are the new styles, the last
  created first, followed by the children it had after the second loop.
\<close>

theorem apply_color_styles_in_string_order:
  assumes "apply_color soup coloring colorize icons = Inr soup'"
  shows "\<exists>soup1 ids soup2.
      color_placemarks soup coloring 0 (tag_paths (named ''Placemark'') soup) [] = Inr (soup1, ids)
    \<and> remove_styles soup1 ids = Inr soup2
    \<and> set ids = {''color'' @ str_of_nat c | j c.
                   j < length (find_all (named ''Placemark'') soup) \<and> coloring j = Some c}
    \<and> distinct (py_sorted ids) \<and> sorted_wrt str_le (py_sorted ids)
    \<and> set (py_sorted ids) = set ids
    \<and> (ids = [] \<and> soup' = soup2
       \<or> (\<exists>pf nm ats cs.
            find_tag (named ''Document'') soup2 = Some (Tag pf nm ats cs)
          \<and> find_tag (named ''Document'') soup'
              = Some (Tag pf nm ats
                        (rev (map (style_of colorize icons) (py_sorted ids)) @ cs))))"
proof -
  from assms obtain soup1 ids where
    l1: "color_placemarks soup coloring 0 (tag_paths (named ''Placemark'') soup) [] = Inr (soup1, ids)"
    by (cases "color_placemarks soup coloring 0 (tag_paths (named ''Placemark'') soup) []")
       (auto simp: apply_color_def)
  from assms l1 obtain soup2 where
    l2: "remove_styles soup1 ids = Inr soup2"
    by (cases "remove_styles soup1 ids") (auto simp: apply_color_def)
  from assms l1 l2 have l3: "add_styles soup2 (py_sorted ids) colorize icons = Inr soup'"
    by (simp add: apply_color_def)
  from color_placemarks_ids[OF l1] have ids:
    "set ids = {''color'' @ str_of_nat c | j c.
                   j < length (find_all (named ''Placemark'') soup) \<and> coloring j = Some c}"
    and dist: "distinct ids"
    by (simp_all add: length_tag_paths)
  have last: "ids = [] \<and> soup' = soup2
       \<or> (\<exists>pf nm ats cs.
            find_tag (named ''Document'') soup2 = Some (Tag pf nm ats cs)
          \<and> find_tag (named ''Document'') soup'
              = Some (Tag pf nm ats
                        (rev (map (style_of colorize icons) (py_sorted ids)) @ cs)))"
  proof (cases ids)
    case Nil
    with l3 show ?thesis by (simp add: py_sorted_def)
  next
    case (Cons a list)
    then have "py_sorted ids \<noteq> []"
      using set_py_sorted[of ids] by auto
    then obtain i rest where s: "py_sorted ids = i # rest"
      by (cases "py_sorted ids") auto
    from l3 obtain d where d: "find_path (named ''Document'') soup2 = Some d"
      unfolding s by (cases "find_path (named ''Document'') soup2") (auto simp: new_style_def)
    from find_path_tag(1)[OF d] obtain pf nm ats cs where
      g: "get_at soup2 d = Some (Tag pf nm ats cs)"
      by (metis is_tag.elims(2))
    from add_styles_children[OF d g l3] d g show ?thesis
      by (auto simp: find_tag_path)
  qed
  show ?thesis
    using l1 l2 ids dist last
    by (simp add: distinct_py_sorted sorted_py_sorted set_py_sorted)
qed

lemma apply_color_two_placemarks:
  "apply_color two_placemarks sample_coloring sample_colorize sample_icons
     = Inr colored_two_placemarks"
  by code_simp

theorem apply_color_styles_in_string_order_witness:
  "apply_color two_placemarks sample_coloring sample_colorize sample_icons
     = Inr colored_two_placemarks
   \<and> (\<exists>soup1 ids soup2.
      color_placemarks two_placemarks sample_coloring 0
        (tag_paths (named ''Placemark'') two_placemarks) [] = Inr (soup1, ids)
    \<and> remove_styles soup1 ids = Inr soup2
    \<and> set ids = {''color'' @ str_of_nat c | j c.
                   j < length (find_all (named ''Placemark'') two_placemarks)
                   \<and> sample_coloring j = Some c}
    \<and> distinct (py_sorted ids) \<and> sorted_wrt str_le (py_sorted ids)
    \<and> set (py_sorted ids) = set ids
    \<and> (ids = [] \<and> colored_two_placemarks = soup2
       \<or> (\<exists>pf nm ats cs.
            find_tag (named ''Document'') soup2 = Some (Tag pf nm ats cs)
          \<and> find_tag (named ''Document'') colored_two_placemarks
              = Some (Tag pf nm ats
                        (rev (map (style_of sample_colorize sample_icons) (py_sorted ids))
                         @ cs)))))"
  using apply_color_styles_in_string_order[OF apply_color_two_placemarks]
    apply_color_two_placemarks
  by simp

theorem apply_color_creates_color10_before_color2:
  "map_sum id snd (color_placemarks two_placemarks sample_coloring 0
       (tag_paths (named ''Placemark'') two_placemarks) [])
     = Inr [''color2'', ''color10'']
   \<and> py_sorted [''color2'', ''color10''] = [''color10'', ''color2'']
   \<and> apply_color two_placemarks sample_coloring sample_colorize sample_icons
     = Inr colored_two_placemarks"
  by code_simp

text \<open>
  C2. The style of an id is filled from \<^verbatim>\<open>colorize\<close> and \<^verbatim>\<open>icons\<close> at the number
  that \<^verbatim>\<open>int(i[-1])\<close> reads from the last character of the id, not at the color
  number: a placemark of color 12 gets the style \<^verbatim>\<open>color12\<close> with the fill and the
  icon of color 2, although both tables have an entry for 12.
\<close>

theorem apply_color_reads_last_digit_only:
  "apply_color one_placemark [0 \<mapsto> 12]
     [2 \<mapsto> ''7f065fb4'', 12 \<mapsto> ''7f121212''] [2 \<mapsto> ''two.png'', 12 \<mapsto> ''twelve.png'']
   = Inr colored_one_placemark"
  by code_simp

end
